theory Spec2Isabelle
  imports Main "HOL-Library.Word" "HOL-Library.Multiset"
begin

unbundle bit_operations_syntax

section \<open>TFRCTPowerClient: data model\<close>

text \<open>
  The embedding follows \<^verbatim>\<open>src/TFRCTPowerClient.cpp\<close>. Machine integers are words of
  the width the C++ declares; \<^verbatim>\<open>size_t\<close> has the 32 bits of the library's
  targets. \<^verbatim>\<open>micros_t\<close> is only compared with zero and handed to
  the clock helpers here, so it is an integer. A \<^verbatim>\<open>float\<close> is never computed with in
  this file, only built from four bytes and handed to a callback, so it is represented by
  its IEEE-754 single-precision bit pattern.
\<close>

type_synonym uint8_t = "8 word"
type_synonym uint16_t = "16 word"
type_synonym uint32_t = "32 word"
type_synonym size_t = "32 word"
type_synonym micros_t = int
type_synonym float = "32 word"

text \<open>The quiet NaN that \<^verbatim>\<open>NAN\<close> of \<^verbatim>\<open>math.h\<close> denotes.\<close>

definition NAN :: float where
  "NAN = 0x7FC00000"

datatype TFRCTPowerClientTransactionResult =
    Success
  | InvalidArgument
  | Aborted
  | NoTransactionAvailable
  | NotConnected
  | DisconnectedByPeer
  | SendFailed
  | ReceiveFailed
  | Timeout
  | ChecksumMismatch

text \<open>The members of \<^verbatim>\<open>TFGenericTCPClientDisconnectReason\<close> that this file uses.\<close>

datatype TFGenericTCPClientDisconnectReason =
    Reason_SocketSendFailed
  | Reason_SocketReceiveFailed
  | Reason_DisconnectedByPeer

text \<open>
  A callback is a \<^verbatim>\<open>std::function\<close>: either empty (\<open>None\<close>) or a callable, named
  here by a number. The \<^verbatim>\<open>next\<close> pointer of a transaction is the list structure of
  the queue below.
\<close>

record TFRCTPowerClientTransaction =
  id' :: uint32_t
  timeout :: micros_t
  callback :: "nat option"

text \<open>
  What the client does to the outside world, in the order it does it: allocating and
  deleting a transaction object, invoking a callback, handing a buffer to \<^verbatim>\<open>send\<close>,
  calling \<^verbatim>\<open>disconnect\<close>. Invoking an empty \<^verbatim>\<open>std::function\<close> is
  \<open>BadFunctionCall\<close>.
\<close>

datatype event =
    New TFRCTPowerClientTransaction
  | Delete TFRCTPowerClientTransaction
  | Call nat TFRCTPowerClientTransactionResult float
  | BadFunctionCall
  | Send "uint8_t list"
  | Disconnect TFGenericTCPClientDisconnectReason int

text \<open>
  The object. \<open>scheduled_transactions\<close> is the singly linked list that starts at
  \<^verbatim>\<open>scheduled_transaction_head\<close>; \<open>pending_response\<close> is the array of 12 bytes;
  \<open>socket_fd\<close> is the base class's field; \<open>trace\<close> records the events so far.
\<close>

record TFRCTPowerClient =
  socket_fd :: int
  scheduled_transactions :: "TFRCTPowerClientTransaction list"
  pending_transaction :: "TFRCTPowerClientTransaction option"
  pending_transaction_deadline :: micros_t
  wait_for_start :: bool
  pending_response :: "uint8_t list"
  pending_response_used :: size_t
  last_received_byte :: uint8_t
  bootloader_magic_number :: uint32_t
  bootloader_last_detected :: micros_t
  trace :: "event list"

text \<open>
  What the file calls but does not define: the body of each callback (\<open>run\<close>: it may
  call back into the client, so it maps the client to the client), the base class's
  \<^verbatim>\<open>disconnect\<close>, and the constant
  \<^verbatim>\<open>TF_RCT_POWER_CLIENT_MAX_SCHEDULED_TRANSACTION_COUNT\<close> of the header.
\<close>

record env =
  run :: "nat \<Rightarrow> TFRCTPowerClientTransactionResult \<Rightarrow> float \<Rightarrow> TFRCTPowerClient \<Rightarrow> TFRCTPowerClient"
  disconnect :: "TFGenericTCPClientDisconnectReason \<Rightarrow> int \<Rightarrow> TFRCTPowerClient \<Rightarrow> TFRCTPowerClient"
  TF_RCT_POWER_CLIENT_MAX_SCHEDULED_TRANSACTION_COUNT :: nat

text \<open>The two marker bytes, \<^verbatim>\<open>'+'\<close> and \<^verbatim>\<open>'-'\<close>.\<close>

abbreviation START :: uint8_t where
  "START \<equiv> 0x2B"

abbreviation ESCAPE :: uint8_t where
  "ESCAPE \<equiv> 0x2D"

section \<open>Checksum\<close>

text \<open>One round of the inner loop of \<^verbatim>\<open>crc16ccitt\<close>, for bit \<open>k\<close> of the byte.\<close>

definition crc16ccitt_bit :: "uint8_t \<Rightarrow> nat \<Rightarrow> uint32_t \<Rightarrow> uint32_t" where
  "crc16ccitt_bit byte k checksum =
     (let bit = (drop_bit (7 - k) byte AND 1 = 1);
          c15 = (drop_bit 15 checksum AND 1 = 1);
          checksum' = push_bit 1 checksum
      in if c15 \<noteq> bit then checksum' XOR 0x1021 else checksum')"

text \<open>One round of the outer loop: the eight bits, then the mask.\<close>

definition crc16ccitt_byte :: "uint8_t \<Rightarrow> uint32_t \<Rightarrow> uint32_t" where
  "crc16ccitt_byte byte checksum = fold (crc16ccitt_bit byte) [0..<8] checksum AND 0xFFFF"

definition crc16ccitt :: "uint8_t list \<Rightarrow> uint16_t" where
  "crc16ccitt buffer = ucast (fold crc16ccitt_byte buffer 0xFFFF AND 0xFFFF)"

text \<open>
  The checksum as the specification words it: a 16-bit accumulator that starts at
  \<open>0xFFFF\<close>; for each bit, most significant first, the carry is bit 15, the accumulator
  is shifted left, and the polynomial is XORed in when carry and bit differ.
\<close>

definition crc16_spec_bit :: "bool \<Rightarrow> uint16_t \<Rightarrow> uint16_t" where
  "crc16_spec_bit currentBit acc =
     (let carry = bit acc 15; acc' = push_bit 1 acc
      in if carry \<noteq> currentBit then acc' XOR 0x1021 else acc')"

definition crc16_spec :: "uint8_t list \<Rightarrow> uint16_t" where
  "crc16_spec bytes =
     fold (\<lambda>byte. fold (\<lambda>k. crc16_spec_bit (bit byte (7 - k))) [0..<8]) bytes 0xFFFF"

section \<open>Encoding a request\<close>

text \<open>The array \<^verbatim>\<open>request\<close> that \<^verbatim>\<open>tick_hook\<close> fills for a transaction id.\<close>

definition tick_hook_request :: "uint32_t \<Rightarrow> uint8_t list" where
  "tick_hook_request i =
     (let request6 = [1, 4,
            ucast (drop_bit 24 i AND 0xFF),
            ucast (drop_bit 16 i AND 0xFF),
            ucast (drop_bit 8 i AND 0xFF),
            ucast (drop_bit 0 i AND 0xFF)];
          checksum = (ucast (crc16ccitt request6) :: uint32_t)
      in request6 @ [ucast (drop_bit 8 checksum AND 0xFF), ucast (drop_bit 0 checksum AND 0xFF)])"

text \<open>
  The escaping loop: \<open>escaped\<close> is the filled part of \<^verbatim>\<open>escaped_request\<close>. The
  array has 17 entries, which 1 + 2 * 8 bytes never exceed.
\<close>

fun tick_hook_escape :: "uint8_t list \<Rightarrow> uint8_t list \<Rightarrow> uint8_t list" where
  "tick_hook_escape escaped [] = escaped"
| "tick_hook_escape escaped (b # request) =
     tick_hook_escape
       ((if b = START \<or> b = ESCAPE then escaped @ [ESCAPE] else escaped) @ [b]) request"

definition tick_hook_escaped_request :: "uint32_t \<Rightarrow> uint8_t list" where
  "tick_hook_escaped_request i = tick_hook_escape [START] (tick_hook_request i)"

text \<open>The raw frame and the wire format as the specification words them.\<close>

definition request_spec :: "uint32_t \<Rightarrow> uint8_t list" where
  "request_spec i =
     (let idbytes = [ucast (drop_bit 24 i), ucast (drop_bit 16 i), ucast (drop_bit 8 i), ucast i];
          crc = crc16ccitt ([1, 4] @ idbytes)
      in [1, 4] @ idbytes @ [ucast (drop_bit 8 crc), ucast crc])"

definition escape_spec :: "uint8_t list \<Rightarrow> uint8_t list" where
  "escape_spec raw =
     START # concat (map (\<lambda>b. if b = START \<or> b = ESCAPE then [ESCAPE, b] else [b]) raw)"

section \<open>Callbacks and transactions\<close>

text \<open>A call of a \<^verbatim>\<open>std::function\<close>: the event, then the callback's body.\<close>

definition invoke ::
  "env \<Rightarrow> nat option \<Rightarrow> TFRCTPowerClientTransactionResult \<Rightarrow> float \<Rightarrow> TFRCTPowerClient \<Rightarrow> TFRCTPowerClient"
where
  "invoke h cb result val s =
     (case cb of
        None \<Rightarrow> s\<lparr>trace := trace s @ [BadFunctionCall]\<rparr>
      | Some c \<Rightarrow> run h c result val (s\<lparr>trace := trace s @ [Call c result val]\<rparr>))"

definition do_disconnect ::
  "env \<Rightarrow> TFGenericTCPClientDisconnectReason \<Rightarrow> int \<Rightarrow> TFRCTPowerClient \<Rightarrow> TFRCTPowerClient"
where
  "do_disconnect h reason error_number s =
     disconnect h reason error_number (s\<lparr>trace := trace s @ [Disconnect reason error_number]\<rparr>)"

definition read ::
  "env \<Rightarrow> uint32_t \<Rightarrow> micros_t \<Rightarrow> nat option \<Rightarrow> TFRCTPowerClient \<Rightarrow> TFRCTPowerClient"
where
  "read h i tmo cb s =
     (case cb of
        None \<Rightarrow> s
      | Some c \<Rightarrow>
          if tmo < 0 then invoke h (Some c) InvalidArgument NAN s
          else if socket_fd s < 0 then invoke h (Some c) NotConnected NAN s
          else
            let scheduled_transaction_count = length (scheduled_transactions s) in
            if scheduled_transaction_count \<ge> TF_RCT_POWER_CLIENT_MAX_SCHEDULED_TRANSACTION_COUNT h
            then invoke h (Some c) NoTransactionAvailable NAN s
            else
              let transaction = \<lparr>id' = i, timeout = tmo, callback = Some c\<rparr> in
              s\<lparr>scheduled_transactions := scheduled_transactions s @ [transaction],
                trace := trace s @ [New transaction]\<rparr>)"

definition reset_pending_response :: "TFRCTPowerClient \<Rightarrow> TFRCTPowerClient" where
  "reset_pending_response s = s\<lparr>wait_for_start := True, pending_response_used := 0\<rparr>"

definition finish_pending_transaction ::
  "env \<Rightarrow> TFRCTPowerClientTransactionResult \<Rightarrow> float \<Rightarrow> TFRCTPowerClient \<Rightarrow> TFRCTPowerClient"
where
  "finish_pending_transaction h result val s =
     (case pending_transaction s of
        None \<Rightarrow> s
      | Some t \<Rightarrow>
          let cb = callback t;
              moved_from = t\<lparr>callback := None\<rparr>;
              s1 = s\<lparr>trace := trace s @ [Delete moved_from]\<rparr>;
              s2 = s1\<lparr>pending_transaction := None, pending_transaction_deadline := 0\<rparr>
          in invoke h cb result val s2)"

text \<open>
  The loop of \<^verbatim>\<open>finish_all_transactions\<close> over the list it has detached from
  \<^verbatim>\<open>scheduled_transaction_head\<close>.
\<close>

fun finish_scheduled ::
  "env \<Rightarrow> TFRCTPowerClientTransactionResult \<Rightarrow> TFRCTPowerClientTransaction list \<Rightarrow> TFRCTPowerClient \<Rightarrow> TFRCTPowerClient"
where
  "finish_scheduled h result [] s = s"
| "finish_scheduled h result (t # ts) s =
     finish_scheduled h result ts
       (invoke h (callback t) result NAN
          (s\<lparr>trace := trace s @ [Delete (t\<lparr>callback := None\<rparr>)]\<rparr>))"

definition finish_all_transactions ::
  "env \<Rightarrow> TFRCTPowerClientTransactionResult \<Rightarrow> TFRCTPowerClient \<Rightarrow> TFRCTPowerClient"
where
  "finish_all_transactions h result s =
     (let s1 = finish_pending_transaction h result NAN s;
          scheduled_transaction = scheduled_transactions s1;
          s2 = s1\<lparr>scheduled_transactions := []\<rparr>
      in finish_scheduled h result scheduled_transaction s2)"

definition close_hook :: "env \<Rightarrow> TFRCTPowerClient \<Rightarrow> TFRCTPowerClient" where
  "close_hook h s =
     finish_all_transactions h Aborted
       (reset_pending_response
          (s\<lparr>last_received_byte := 0, bootloader_magic_number := 0,
             bootloader_last_detected := 0\<rparr>))"

section \<open>The outbound tick\<close>

text \<open>
  \<open>deadline_elapsed\<close> is what the helper of that name answers for a deadline when the tick
  runs; it is not defined in this file and stays a parameter.
\<close>

definition check_pending_transaction_timeout ::
  "env \<Rightarrow> (micros_t \<Rightarrow> bool) \<Rightarrow> TFRCTPowerClient \<Rightarrow> TFRCTPowerClient"
where
  "check_pending_transaction_timeout h deadline_elapsed s =
     (if pending_transaction s \<noteq> None \<and> deadline_elapsed (pending_transaction_deadline s)
      then finish_pending_transaction h Timeout NAN s
      else s)"

text \<open>
  Modelled from the spec: \<^verbatim>\<open>calculate_deadline\<close> is declared in \<^verbatim>\<open>TFNetwork.h\<close>,
  which is not among the source files. The specification gives the deadline as
  \<^verbatim>\<open>now() + timeout\<close>; \<open>now_us\<close> is the clock when the helper is called.
\<close>

definition calculate_deadline :: "micros_t \<Rightarrow> micros_t \<Rightarrow> micros_t" where
  "calculate_deadline now_us delay = now_us + delay"

text \<open>
  \<open>send\<close> answers whether the base class's \<^verbatim>\<open>send\<close> wrote the whole buffer, and
  \<open>errno\<close> is the error number it leaves behind.
\<close>

definition tick_hook ::
  "env \<Rightarrow> (micros_t \<Rightarrow> bool) \<Rightarrow> micros_t \<Rightarrow> (uint8_t list \<Rightarrow> bool) \<Rightarrow> int \<Rightarrow> TFRCTPowerClient \<Rightarrow> TFRCTPowerClient"
where
  "tick_hook h deadline_elapsed now_us send errno s =
     (let s1 = check_pending_transaction_timeout h deadline_elapsed s in
      case pending_transaction s1 of
        Some p \<Rightarrow> s1
      | None \<Rightarrow>
          (case scheduled_transactions s1 of
             [] \<Rightarrow> s1
           | t # rest \<Rightarrow>
               let s2 = s1\<lparr>pending_transaction := Some t,
                          scheduled_transactions := rest,
                          pending_transaction_deadline := calculate_deadline now_us (timeout t)\<rparr>;
                   escaped_request = tick_hook_escaped_request (id' t);
                   s3 = s2\<lparr>trace := trace s2 @ [Send escaped_request]\<rparr>
               in if \<not> send escaped_request
                  then do_disconnect h Reason_SocketSendFailed errno
                         (finish_pending_transaction h SendFailed NAN s3)
                  else s3))"

section \<open>The inbound decoder\<close>

text \<open>\<^verbatim>\<open>pending_response[pending_response_used++] = received_byte\<close>\<close>

definition append_response :: "uint8_t \<Rightarrow> TFRCTPowerClient \<Rightarrow> TFRCTPowerClient" where
  "append_response received_byte s =
     s\<lparr>pending_response := (pending_response s)[unat (pending_response_used s) := received_byte],
       pending_response_used := pending_response_used s + 1\<rparr>"

text \<open>
  The escape handling of \<^verbatim>\<open>receive_hook\<close> for one received byte: the chain of
  conditions on \<^verbatim>\<open>wait_for_start\<close>, the byte and the byte before it, and the
  assignment to \<^verbatim>\<open>last_received_byte\<close> that ends it.
\<close>

definition receive_hook_unescape :: "uint8_t \<Rightarrow> TFRCTPowerClient \<Rightarrow> TFRCTPowerClient" where
  "receive_hook_unescape received_byte s =
     (let s' =
        (if wait_for_start s then
           (if received_byte = START \<and> last_received_byte s \<noteq> ESCAPE
            then s\<lparr>wait_for_start := False\<rparr> else s)
         else if received_byte = START then
           (if last_received_byte s = ESCAPE
            then append_response received_byte s
            else s\<lparr>pending_response_used := 0\<rparr>)
         else if received_byte = ESCAPE then
           (if last_received_byte s = ESCAPE
            then append_response received_byte s
            else s)
         else append_response received_byte s)
      in s'\<lparr>last_received_byte := received_byte\<rparr>)"

text \<open>The two eager checks on the command and length bytes.\<close>

definition receive_hook_check_header :: "TFRCTPowerClient \<Rightarrow> TFRCTPowerClient" where
  "receive_hook_check_header s =
     (if pending_response_used s = 1 \<and> pending_response s ! 0 \<noteq> 5
      then reset_pending_response s
      else if pending_response_used s = 2 \<and> pending_response s ! 1 \<noteq> 8
      then reset_pending_response s
      else s)"

text \<open>The body of the loop of \<^verbatim>\<open>receive_hook\<close> once \<^verbatim>\<open>recv\<close> has read a byte.\<close>

definition receive_hook_byte :: "micros_t \<Rightarrow> uint8_t \<Rightarrow> TFRCTPowerClient \<Rightarrow> TFRCTPowerClient" where
  "receive_hook_byte now_us received_byte s =
     (let s1 = s\<lparr>bootloader_magic_number :=
                   push_bit 8 (bootloader_magic_number s) OR ucast received_byte\<rparr>;
          s2 = (if bootloader_magic_number s1 = 0x50F705AB
                then s1\<lparr>bootloader_last_detected := now_us\<rparr> else s1)
      in receive_hook_check_header (receive_hook_unescape received_byte s2))"

text \<open>
  How \<^verbatim>\<open>recv\<close> answers once the bytes that can be read have been read: a negative
  result with \<^verbatim>\<open>EAGAIN\<close> or \<^verbatim>\<open>EWOULDBLOCK\<close>, a negative result with another error
  number, or zero.
\<close>

datatype recv_end = WouldBlock | RecvFailed int | PeerClosed

text \<open>
  The loop of \<^verbatim>\<open>receive_hook\<close>. \<open>budget\<close> counts the rounds that begin before the
  10 ms deadline has elapsed, \<open>bytes\<close> are the bytes \<^verbatim>\<open>recv\<close> can read. The result
  is \<open>Some b\<close> with the bytes left unread when the loop returns \<open>b\<close>, and \<open>None\<close> when
  the loop ends because the buffer is full.
\<close>

fun receive_hook_loop ::
  "env \<Rightarrow> micros_t \<Rightarrow> nat \<Rightarrow> recv_end \<Rightarrow> uint8_t list \<Rightarrow> TFRCTPowerClient
     \<Rightarrow> bool option \<times> uint8_t list \<times> TFRCTPowerClient"
where
  "receive_hook_loop h now_us budget fin bytes s =
     (if 12 - pending_response_used s > 0 then
        (if budget = 0 then (Some True, bytes, s)
         else
           (case bytes of
              [] \<Rightarrow>
                (case fin of
                   WouldBlock \<Rightarrow> (Some False, [], s)
                 | RecvFailed errno \<Rightarrow>
                     (Some False, [], do_disconnect h Reason_SocketReceiveFailed errno s)
                 | PeerClosed \<Rightarrow>
                     (Some False, [], do_disconnect h Reason_DisconnectedByPeer (- 1) s))
            | received_byte # rest \<Rightarrow>
                receive_hook_loop h now_us (budget - 1) fin rest
                  (receive_hook_byte now_us received_byte s)))
      else (None, bytes, s))"

declare receive_hook_loop.simps [simp del]

text \<open>
  The union of a \<^verbatim>\<open>float\<close> and four bytes: the value whose bytes in memory are the
  given four. The targets of this library are little-endian, so \<^verbatim>\<open>bytes[0]\<close> is the least
  significant byte.
\<close>

definition union_value :: "uint8_t \<Rightarrow> uint8_t \<Rightarrow> uint8_t \<Rightarrow> uint8_t \<Rightarrow> float" where
  "union_value bytes0 bytes1 bytes2 bytes3 =
     push_bit 24 (ucast bytes3) OR push_bit 16 (ucast bytes2) OR push_bit 8 (ucast bytes1) OR ucast bytes0"

text \<open>What \<^verbatim>\<open>receive_hook\<close> does after the loop, with the buffer full.\<close>

definition receive_hook_validate :: "env \<Rightarrow> TFRCTPowerClient \<Rightarrow> TFRCTPowerClient" where
  "receive_hook_validate h s =
     (let r = pending_response s;
          i = (push_bit 24 (ucast (r ! 2)) OR push_bit 16 (ucast (r ! 3)) OR
               push_bit 8 (ucast (r ! 4)) OR push_bit 0 (ucast (r ! 5)) :: uint32_t)
      in case pending_transaction s of
           None \<Rightarrow> reset_pending_response s
         | Some p \<Rightarrow>
             if id' p \<noteq> i then reset_pending_response s
             else
               let used = pending_response_used s;
                   actual_checksum = crc16ccitt (take (unat (used - 2)) r);
                   expected_checksum =
                     (push_bit 8 (ucast (r ! unat (used - 2))) OR ucast (r ! unat (used - 1)) :: uint16_t)
               in if actual_checksum \<noteq> expected_checksum
                  then finish_pending_transaction h ChecksumMismatch NAN (reset_pending_response s)
                  else
                    let val = union_value (r ! (6 + 3)) (r ! (6 + 2)) (r ! (6 + 1)) (r ! (6 + 0))
                    in finish_pending_transaction h Success val (reset_pending_response s))"

definition receive_hook ::
  "env \<Rightarrow> micros_t \<Rightarrow> nat \<Rightarrow> recv_end \<Rightarrow> uint8_t list \<Rightarrow> TFRCTPowerClient
     \<Rightarrow> bool \<times> uint8_t list \<times> TFRCTPowerClient"
where
  "receive_hook h now_us budget fin bytes s =
     (case receive_hook_loop h now_us budget fin bytes s of
        (Some b, rest, s') \<Rightarrow> (b, rest, s')
      | (None, rest, s') \<Rightarrow> (True, rest, receive_hook_validate h s'))"

section \<open>Runs, observations and examples\<close>

text \<open>The four entry points, with what the outside world answers during each call.\<close>

datatype entry =
    Entry_read uint32_t micros_t "nat option"
  | Entry_tick "micros_t \<Rightarrow> bool" micros_t "uint8_t list \<Rightarrow> bool" int
  | Entry_receive micros_t nat recv_end "uint8_t list"
  | Entry_close

fun enter :: "env \<Rightarrow> entry \<Rightarrow> TFRCTPowerClient \<Rightarrow> TFRCTPowerClient" where
  "enter h (Entry_read i tmo cb) s = read h i tmo cb s"
| "enter h (Entry_tick deadline_elapsed now_us send errno) s =
     tick_hook h deadline_elapsed now_us send errno s"
| "enter h (Entry_receive now_us budget fin bytes) s =
     snd (snd (receive_hook h now_us budget fin bytes s))"
| "enter h Entry_close s = close_hook h s"

definition enter_all :: "env \<Rightarrow> entry list \<Rightarrow> TFRCTPowerClient \<Rightarrow> TFRCTPowerClient" where
  "enter_all h es s = fold (enter h) es s"

text \<open>The filled part of the response buffer.\<close>

definition unescaped :: "TFRCTPowerClient \<Rightarrow> uint8_t list" where
  "unescaped s = take (unat (pending_response_used s)) (pending_response s)"

text \<open>
  Reading the trace. \<open>accepted\<close> lists the transactions \<^verbatim>\<open>read\<close> has allocated.
  \<open>completed\<close> lists the transactions that were deleted with their callback moved out and
  invoked next: the callback is put back, so that the entry is the transaction as it was
  accepted.
\<close>

fun accepted :: "event list \<Rightarrow> TFRCTPowerClientTransaction list" where
  "accepted (New t # es) = t # accepted es"
| "accepted (e # es) = accepted es"
| "accepted [] = []"

fun completed :: "event list \<Rightarrow> TFRCTPowerClientTransaction list" where
  "completed (Delete t # Call c r v # es) = t\<lparr>callback := Some c\<rparr> # completed es"
| "completed (e # es) = completed es"
| "completed [] = []"

text \<open>
  The results a callback can be called with. An accepted transaction ends with one of
  the five \<open>terminal\<close> results; \<^verbatim>\<open>read\<close> reports one of the three \<open>rejection\<close> results
  for a submission it does not accept.
\<close>

fun terminal :: "TFRCTPowerClientTransactionResult \<Rightarrow> bool" where
  "terminal Success = True"
| "terminal Aborted = True"
| "terminal SendFailed = True"
| "terminal Timeout = True"
| "terminal ChecksumMismatch = True"
| "terminal r = False"

fun rejection :: "TFRCTPowerClientTransactionResult \<Rightarrow> bool" where
  "rejection InvalidArgument = True"
| "rejection NotConnected = True"
| "rejection NoTransactionAvailable = True"
| "rejection r = False"

text \<open>
  \<open>paired\<close> accounts for every deletion and every call in the trace. A deletion is that
  of a transaction whose callback was moved out, and it is followed at once by a call
  with a terminal result: the two events are one completion. Every other call stands
  alone and carries a rejection result. No empty \<^verbatim>\<open>std::function\<close> is called.
\<close>

fun paired :: "event list \<Rightarrow> bool" where
  "paired (Delete t # Call c r v # es) = (callback t = None \<and> terminal r \<and> paired es)"
| "paired (Delete t # es) = False"
| "paired (Call c r v # es) = (rejection r \<and> paired es)"
| "paired (BadFunctionCall # es) = False"
| "paired (e # es) = paired es"
| "paired [] = True"



text \<open>
  The transactions the client still owes a result: the pending one, the queue, and
  \<open>xs\<close>, the part of a detached queue that \<^verbatim>\<open>finish_all_transactions\<close> still holds in its
  local variable.
\<close>

definition outstanding ::
  "TFRCTPowerClientTransaction list \<Rightarrow> TFRCTPowerClient \<Rightarrow> TFRCTPowerClientTransaction list"
where
  "outstanding xs s =
     (case pending_transaction s of None \<Rightarrow> [] | Some p \<Rightarrow> [p]) @ scheduled_transactions s @ xs"

text \<open>
  Every accepted transaction is either still outstanding or was completed, once: the
  accepted ones are, as a multiset, the completed and the outstanding ones together.
\<close>

definition exactly_once :: "TFRCTPowerClientTransaction list \<Rightarrow> TFRCTPowerClient \<Rightarrow> bool" where
  "exactly_once xs s \<longleftrightarrow>
     paired (trace s) \<and>
     mset (accepted (trace s)) = mset (completed (trace s)) + mset (outstanding xs s) \<and>
     list_all (\<lambda>t. callback t \<noteq> None) (outstanding xs s)"



text \<open>
  How far the client has come since it was \<open>s0\<close>. The account is kept and the trace has
  only grown, by \<open>es\<close>. Of the transactions that were outstanding in \<open>s0\<close>, those not
  completed in \<open>es\<close> are \<open>o1\<close> and \<open>o2\<close>: \<open>o1\<close> is in the client, in front of every
  transaction accepted later, and \<open>o2\<close> is in the detached list \<open>xs\<close>.
\<close>

definition still_owed ::
  "TFRCTPowerClient \<Rightarrow> TFRCTPowerClientTransaction list \<Rightarrow> TFRCTPowerClientTransaction list \<Rightarrow>
   TFRCTPowerClientTransaction list \<Rightarrow> TFRCTPowerClient \<Rightarrow> bool"
where
  "still_owed s0 o1 o2 xs s \<longleftrightarrow>
     exactly_once xs s \<and> mset o2 \<subseteq># mset xs \<and>
     (\<exists>es n1. trace s = trace s0 @ es \<and> paired es \<and> outstanding [] s = o1 @ n1 \<and>
        mset (outstanding [] s0) \<subseteq># mset o1 + mset o2 + mset (completed es))"

text \<open>
  The steps that \<open>o1\<close> and \<open>o2\<close> still need: each transaction is promoted and then
  completed, and the promotion of the first has happened when a transaction is pending.
\<close>

definition steps_left ::
  "TFRCTPowerClientTransaction list \<Rightarrow> TFRCTPowerClientTransaction list \<Rightarrow> TFRCTPowerClient \<Rightarrow> nat"
where
  "steps_left o1 o2 s =
     2 * (length o1 + length o2) - (if o1 \<noteq> [] \<and> pending_transaction s \<noteq> None then 1 else 0)"

definition progress ::
  "TFRCTPowerClient \<Rightarrow> TFRCTPowerClientTransaction list \<Rightarrow> TFRCTPowerClient \<Rightarrow> nat \<Rightarrow> bool"
where
  "progress s0 xs s n \<longleftrightarrow> (\<exists>o1 o2. still_owed s0 o1 o2 xs s \<and> steps_left o1 o2 s \<le> n)"

text \<open>
  Callbacks and \<^verbatim>\<open>disconnect\<close> that do not set the client back: whatever they do to it,
  the transactions that were outstanding need no more steps afterwards than before. A
  hook that leaves the client alone is one, and so is a hook that calls the entry points.
\<close>

definition hooks_advance :: "env \<Rightarrow> bool" where
  "hooks_advance h \<longleftrightarrow>
     (\<forall>s0 xs s n c r v. progress s0 xs s n \<longrightarrow> progress s0 xs (run h c r v s) n) \<and>
     (\<forall>s0 xs s n reason e. progress s0 xs s n \<longrightarrow> progress s0 xs (disconnect h reason e s) n)"



text \<open>
  An environment whose callbacks and \<^verbatim>\<open>disconnect\<close> leave the client alone, with room
  for 8 scheduled transactions, and a connected client with nothing scheduled.
\<close>

definition quiet_env :: env where
  "quiet_env = \<lparr>run = (\<lambda>c r v s. s), disconnect = (\<lambda>reason e s. s),
                 TF_RCT_POWER_CLIENT_MAX_SCHEDULED_TRANSACTION_COUNT = 8\<rparr>"

definition idle_client :: TFRCTPowerClient where
  "idle_client = \<lparr>socket_fd = 3, scheduled_transactions = [], pending_transaction = None,
                   pending_transaction_deadline = 0, wait_for_start = True,
                   pending_response = replicate 12 0, pending_response_used = 0,
                   last_received_byte = 0, bootloader_magic_number = 0,
                   bootloader_last_detected = 0, trace = []\<rparr>"

text \<open>
  Responses on the wire. \<open>response_1\<close> answers id 1 with a valid checksum 0x982C;
  \<open>response_1_flipped\<close> is the same frame with the lowest bit of the last checksum byte
  flipped, which makes that byte 0x2D and so adds an escape byte on the wire;
  \<open>response_2\<close> answers id 2 with the value 42.0 and a valid checksum.
\<close>

definition response_1 :: "uint8_t list" where
  "response_1 = [START, 5, 8, 0, 0, 0, 1, 0x41, 0, 0, 0x8B, 0x98, 0x2C]"

definition response_1_flipped :: "uint8_t list" where
  "response_1_flipped = [START, 5, 8, 0, 0, 0, 1, 0x41, 0, 0, 0x8B, 0x98, ESCAPE, 0x2D]"

definition response_2 :: "uint8_t list" where
  "response_2 = [START, 5, 8, 0, 0, 0, 2, 0x42, 0x28, 0, 0, 0xE2, 0xA6]"

text \<open>A client that has sent the request for id 1, and one that has sent it for id 2.\<close>

definition awaiting_1 :: TFRCTPowerClient where
  "awaiting_1 =
     enter_all quiet_env
       [Entry_read 1 5000 (Some 7), Entry_tick (\<lambda>d. False) 1000 (\<lambda>b. True) 0] idle_client"

definition awaiting_2 :: TFRCTPowerClient where
  "awaiting_2 =
     enter_all quiet_env
       [Entry_receive 2000 100 WouldBlock response_1_flipped,
        Entry_read 2 5000 (Some 9), Entry_tick (\<lambda>d. False) 3000 (\<lambda>b. True) 0] awaiting_1"

text \<open>
  A client in which transaction 1 is pending and transaction 2 is scheduled; and the
  client after a tick that finds the deadline of transaction 1 elapsed: transaction 1
  has timed out and the request for transaction 2 is on the wire.
\<close>

definition awaiting_1_scheduled_2 :: TFRCTPowerClient where
  "awaiting_1_scheduled_2 = enter_all quiet_env [Entry_read 2 5000 (Some 9)] awaiting_1"

definition timed_out_1_awaiting_2 :: TFRCTPowerClient where
  "timed_out_1_awaiting_2 =
     enter_all quiet_env [Entry_tick (\<lambda>d. True) 7000 (\<lambda>b. True) 0] awaiting_1_scheduled_2"

text \<open>
  An environment whose callbacks call back into the client: each submits transaction 3
  and runs a tick that finds every deadline elapsed.
\<close>

definition reentrant_env :: env where
  "reentrant_env =
     \<lparr>run = (\<lambda>c r v s.
              tick_hook quiet_env (\<lambda>d. True) 9000 (\<lambda>b. True) 0
                (read quiet_env 3 100 (Some 8) s)),
       disconnect = (\<lambda>reason e s. s),
       TF_RCT_POWER_CLIENT_MAX_SCHEDULED_TRANSACTION_COUNT = 8\<rparr>"

text \<open>An environment whose callbacks run a tick that finds no deadline elapsed.\<close>

definition ticking_env :: env where
  "ticking_env =
     \<lparr>run = (\<lambda>c r v s. tick_hook quiet_env (\<lambda>d. False) 8000 (\<lambda>b. True) 0 s),
       disconnect = (\<lambda>reason e s. s),
       TF_RCT_POWER_CLIENT_MAX_SCHEDULED_TRANSACTION_COUNT = 8\<rparr>"

text \<open>
  The number that a sequence of bytes denotes when the first byte is the most
  significant one.
\<close>

definition big_endian :: "uint8_t list \<Rightarrow> nat" where
  "big_endian bs = foldl (\<lambda>n b. n * 256 + unat b) 0 bs"

section \<open>Properties\<close>

subsection \<open>The checksum\<close>

lemma drop_bit_and_1_iff: "(drop_bit n (w::'a::len word) AND 1 = 1) \<longleftrightarrow> bit w n"
  by (simp add: and_one_eq bit_iff_odd_drop_bit odd_iff_mod_2_eq_one)

lemma ucast_push_bit_down: "(ucast (push_bit n (c::uint32_t)) :: uint16_t) = push_bit n (ucast c)"
  by (rule bit_word_eqI) (auto simp add: bit_simps)

lemma ucast_double_down: "(ucast ((c::uint32_t) * 2) :: uint16_t) = ucast c * 2"
  using ucast_push_bit_down [of 1 c] by simp

lemma ucast_xor_poly: "(ucast ((c::uint32_t) XOR 0x1021) :: uint16_t) = ucast c XOR 0x1021"
proof -
  have "(ucast ((c::uint32_t) XOR d) :: uint16_t) = ucast c XOR ucast d" for d
    by (rule bit_word_eqI) (auto simp add: bit_simps)
  from this [of "0x1021"] show ?thesis by simp
qed

lemma ucast_and_FFFF: "(ucast ((c::uint32_t) AND 0xFFFF) :: uint16_t) = ucast c"
proof -
  have m: "(0xFFFF :: uint32_t) = mask 16"
    by (simp add: mask_eq_exp_minus_1)
  show ?thesis
    unfolding m by (rule bit_word_eqI) (auto simp add: bit_simps)
qed

lemma crc16ccitt_bit_spec:
  "ucast (crc16ccitt_bit byte k c) = crc16_spec_bit (bit byte (7 - k)) (ucast c)"
  by (simp add: crc16ccitt_bit_def crc16_spec_bit_def Let_def drop_bit_and_1_iff
      ucast_double_down ucast_xor_poly bit_ucast_iff)

lemma crc16ccitt_bits_spec:
  "ucast (fold (crc16ccitt_bit byte) ks c) =
   fold (\<lambda>k. crc16_spec_bit (bit byte (7 - k))) ks (ucast c)"
  by (induction ks arbitrary: c) (simp_all add: crc16ccitt_bit_spec)

lemma crc16ccitt_byte_spec:
  "ucast (crc16ccitt_byte byte c) =
   fold (\<lambda>k. crc16_spec_bit (bit byte (7 - k))) [0..<8] (ucast c)"
  by (simp add: crc16ccitt_byte_def ucast_and_FFFF crc16ccitt_bits_spec)

lemma crc16ccitt_bytes_spec:
  "ucast (fold crc16ccitt_byte bs c) =
   fold (\<lambda>byte. fold (\<lambda>k. crc16_spec_bit (bit byte (7 - k))) [0..<8]) bs (ucast c)"
  by (induction bs arbitrary: c) (simp_all add: crc16ccitt_byte_spec)

lemma crc16ccitt_eq_spec: "crc16ccitt bs = crc16_spec bs"
  by (simp add: crc16ccitt_def crc16_spec_def ucast_and_FFFF crc16ccitt_bytes_spec)

lemma crc16ccitt_check_value: "crc16ccitt (map of_char ''123456789'') = 0x29B1"
  by code_simp

text \<open>
  C2. The checksum of the code, with its 32-bit accumulator masked after every byte, is
  the 16-bit CRC16/CCITT-FALSE of the specification on every byte sequence, and the
  checksum of the ASCII bytes of "123456789" is 0x29B1.
\<close>

theorem crc16ccitt_is_ccitt_false:
  "crc16ccitt bs = crc16_spec bs \<and> crc16ccitt (map of_char ''123456789'') = 0x29B1"
  using crc16ccitt_eq_spec crc16ccitt_check_value by simp

subsection \<open>The request on the wire\<close>

lemma ucast_and_FF_down: "(ucast ((w::uint32_t) AND 0xFF) :: uint8_t) = ucast w"
proof -
  have m: "(0xFF :: uint32_t) = mask 8"
    by (simp add: mask_eq_exp_minus_1)
  show ?thesis
    unfolding m by (rule bit_word_eqI) (auto simp add: bit_simps)
qed

lemma ucast_drop_bit_checksum:
  "(ucast (drop_bit n (ucast (c::uint16_t) :: uint32_t)) :: uint8_t) = ucast (drop_bit n c)"
  by (rule bit_word_eqI) (auto simp add: bit_simps dest: bit_imp_le_length)

lemma tick_hook_request_spec: "tick_hook_request i = request_spec i"
  by (simp add: tick_hook_request_def request_spec_def Let_def ucast_and_FF_down
      ucast_drop_bit_checksum ucast_drop_bit_checksum [of 0, simplified])

lemma tick_hook_escape_concat:
  "tick_hook_escape escaped request =
   escaped @ concat (map (\<lambda>b. if b = START \<or> b = ESCAPE then [ESCAPE, b] else [b]) request)"
  by (induction request arbitrary: escaped) simp_all

lemma tick_hook_escaped_request_spec:
  "tick_hook_escaped_request i = escape_spec (tick_hook_request i)"
  by (simp add: tick_hook_escaped_request_def escape_spec_def tick_hook_escape_concat)

lemma length_tick_hook_request: "length (tick_hook_request i) = 8"
  by (simp add: tick_hook_request_def Let_def)

text \<open>
  C9. For every transaction id the request before escaping is the 8 bytes
  1, 4, the id most significant byte first, and the checksum of these six bytes, high byte
  first; the buffer handed to \<^verbatim>\<open>send\<close> is the start marker followed by every raw byte,
  with the escape marker put in front of a byte that equals one of the two markers.
\<close>

theorem request_encoding:
  "tick_hook_request i = request_spec i \<and> length (tick_hook_request i) = 8 \<and>
   tick_hook_escaped_request i = escape_spec (request_spec i)"
  using tick_hook_request_spec [of i] length_tick_hook_request [of i]
    tick_hook_escaped_request_spec [of i] by simp

subsection \<open>Decoding what was encoded\<close>

text \<open>
  C1. The claim is that unescaping the escaped request gives back its 8 raw bytes, for
  every id. The decoder takes a byte for escaped whenever the byte before it is the escape
  marker, also when that marker was itself the second byte of an escape pair. For the id
  0x2D2D0000 the raw request holds two escape markers in a row, the wire holds four, and
  the decoder extracts three: 9 bytes come back instead of 8.
\<close>

theorem unescape_of_escaped_request_0x2D2D0000:
  "tick_hook_request 0x2D2D0000 = [1, 4, ESCAPE, ESCAPE, 0, 0, 8, 0xE9] \<and>
   tick_hook_escaped_request 0x2D2D0000 =
     [START, 1, 4, ESCAPE, ESCAPE, ESCAPE, ESCAPE, 0, 0, 8, 0xE9] \<and>
   unescaped (fold receive_hook_unescape (tick_hook_escaped_request 0x2D2D0000) idle_client) =
     [1, 4, ESCAPE, ESCAPE, ESCAPE, 0, 0, 8, 0xE9]"
  by code_simp

subsection \<open>A frame after a checksum mismatch\<close>

lemma awaiting_2_pending:
  "pending_transaction awaiting_2 = Some \<lparr>id' = 2, timeout = 5000, callback = Some 9\<rparr>"
  by code_simp

text \<open>
  C7. The claim is that after a checksum mismatch the decoder can parse the next
  well-formed frame. The client awaits the response for id 1 and receives it with one
  bit of the last checksum byte flipped, so that this byte is the escape marker: the
  pending transaction is failed with ChecksumMismatch and the decoder searches for a
  start again, but \<^verbatim>\<open>last_received_byte\<close> still holds the escape marker. The client
  then sends the request for id 2 and receives a well-formed response for it: its start
  marker is taken for an escaped byte, all 13 bytes are dropped, no callback is called
  and the transaction stays pending. Had \<^verbatim>\<open>last_received_byte\<close> been cleared, the same
  bytes would have completed it with Success.
\<close>

theorem frame_after_checksum_mismatch_is_lost:
  "receive_hook quiet_env 2000 100 WouldBlock response_1_flipped awaiting_1 =
     (True, [],
      awaiting_1\<lparr>pending_transaction := None, pending_transaction_deadline := 0,
        pending_response := [5, 8, 0, 0, 0, 1, 0x41, 0, 0, 0x8B, 0x98, ESCAPE],
        last_received_byte := ESCAPE, bootloader_magic_number := 0x8B982D2D,
        trace := trace awaiting_1 @
          [Delete \<lparr>id' = 1, timeout = 5000, callback = None\<rparr>, Call 7 ChecksumMismatch NAN]\<rparr>) \<and>
   receive_hook quiet_env 4000 100 WouldBlock response_2 awaiting_2 =
     (False, [], awaiting_2\<lparr>last_received_byte := 0xA6, bootloader_magic_number := 0xE2A6\<rparr>) \<and>
   receive_hook quiet_env 4000 100 WouldBlock response_2 (awaiting_2\<lparr>last_received_byte := 0\<rparr>) =
     (True, [],
      awaiting_2\<lparr>pending_transaction := None, pending_transaction_deadline := 0,
        pending_response := [5, 8, 0, 0, 0, 2, 0x42, 0x28, 0, 0, 0xE2, 0xA6],
        last_received_byte := 0xA6, bootloader_magic_number := 0xE2A6,
        trace := trace awaiting_2 @
          [Delete \<lparr>id' = 2, timeout = 5000, callback = None\<rparr>, Call 9 Success 0x42280000]\<rparr>)"
  by code_simp

subsection \<open>Finishing the pending transaction\<close>

lemma finish_pending_transaction_Some:
  "pending_transaction s = Some t \<Longrightarrow> callback t = Some c \<Longrightarrow>
   finish_pending_transaction h result val s =
     run h c result val
       (s\<lparr>pending_transaction := None, pending_transaction_deadline := 0,
          trace := trace s @ [Delete (t\<lparr>callback := None\<rparr>), Call c result val]\<rparr>)"
  by (simp add: finish_pending_transaction_def invoke_def Let_def)

lemma finish_pending_transaction_None:
  "pending_transaction s = None \<Longrightarrow> finish_pending_transaction h result val s = s"
  by (simp add: finish_pending_transaction_def)

lemma awaiting_1_eq:
  "awaiting_1 =
     idle_client\<lparr>pending_transaction := Some \<lparr>id' = 1, timeout = 5000, callback = Some 7\<rparr>,
       pending_transaction_deadline := 6000,
       trace := [New \<lparr>id' = 1, timeout = 5000, callback = Some 7\<rparr>,
                 Send [START, 1, 4, 0, 0, 0, 1, 0xD2, 0x97]]\<rparr>"
  by code_simp

text \<open>
  C10. When \<^verbatim>\<open>finish_pending_transaction\<close> invokes the callback of the pending
  transaction, the client the callback finds has no pending transaction and a cleared
  deadline, and the transaction object was deleted with its callback moved out and nulled.
  In that client a second \<^verbatim>\<open>finish_pending_transaction\<close> and the timeout check of a
  tick do nothing, and a teardown only visits the scheduled transactions: nothing the
  callback calls can reach the finished transaction or its callback again.
\<close>

theorem callback_runs_after_cleanup:
  fixes s :: TFRCTPowerClient and t c result val
  defines "s' \<equiv> s\<lparr>pending_transaction := None, pending_transaction_deadline := 0,
                    trace := trace s @ [Delete (t\<lparr>callback := None\<rparr>), Call c result val]\<rparr>"
  assumes "pending_transaction s = Some t" and "callback t = Some c"
  shows "finish_pending_transaction h result val s = run h c result val s' \<and>
         pending_transaction s' = None \<and> pending_transaction_deadline s' = 0 \<and>
         scheduled_transactions s' = scheduled_transactions s \<and>
         callback (t\<lparr>callback := None\<rparr>) = None \<and>
         finish_pending_transaction h' result' val' s' = s' \<and>
         check_pending_transaction_timeout h' deadline_elapsed s' = s' \<and>
         finish_all_transactions h' result' s' =
           finish_scheduled h' result' (scheduled_transactions s)
             (s'\<lparr>scheduled_transactions := []\<rparr>)"
  using assms
  by (simp add: finish_pending_transaction_Some finish_pending_transaction_None
      check_pending_transaction_timeout_def finish_all_transactions_def Let_def)

text \<open>
  The callback of transaction 1 submits transaction 3 and runs a tick for which every
  deadline has elapsed: callback 7 is called once, and the tick inside it promotes
  transaction 3.
\<close>

theorem callback_runs_after_cleanup_witness:
  "pending_transaction awaiting_1 = Some \<lparr>id' = 1, timeout = 5000, callback = Some 7\<rparr> \<and>
   finish_pending_transaction reentrant_env Timeout NAN awaiting_1 =
     awaiting_1\<lparr>pending_transaction := Some \<lparr>id' = 3, timeout = 100, callback = Some 8\<rparr>,
       pending_transaction_deadline := 9100,
       trace := trace awaiting_1 @
         [Delete \<lparr>id' = 1, timeout = 5000, callback = None\<rparr>, Call 7 Timeout NAN,
          New \<lparr>id' = 3, timeout = 100, callback = Some 8\<rparr>,
          Send [START, 1, 4, 0, 0, 0, 3, 0xF2, 0xD5]]\<rparr>"
proof -
  have p: "pending_transaction awaiting_1 = Some \<lparr>id' = 1, timeout = 5000, callback = Some 7\<rparr>"
    by (simp add: awaiting_1_eq)
  have c: "callback \<lparr>id' = 1, timeout = 5000, callback = Some 7\<rparr> = Some 7"
    by simp
  have r: "run reentrant_env 7 Timeout NAN
         (awaiting_1\<lparr>pending_transaction := None, pending_transaction_deadline := 0,
            trace := trace awaiting_1 @
              [Delete (\<lparr>id' = 1, timeout = 5000, callback = Some 7\<rparr>\<lparr>callback := None\<rparr>),
               Call 7 Timeout NAN]\<rparr>) =
     awaiting_1\<lparr>pending_transaction := Some \<lparr>id' = 3, timeout = 100, callback = Some 8\<rparr>,
       pending_transaction_deadline := 9100,
       trace := trace awaiting_1 @
         [Delete \<lparr>id' = 1, timeout = 5000, callback = None\<rparr>, Call 7 Timeout NAN,
          New \<lparr>id' = 3, timeout = 100, callback = Some 8\<rparr>,
          Send [START, 1, 4, 0, 0, 0, 3, 0xF2, 0xD5]]\<rparr>"
    by code_simp
  from callback_runs_after_cleanup [OF p c, of reentrant_env Timeout NAN] p r
  show ?thesis by simp
qed

subsection \<open>Submitting\<close>

text \<open>
  C4, as stated: every rejection reports its result through the callback. A call
  without a callback is rejected and reports nothing: the client is unchanged, nothing is
  scheduled and no callback is called.
\<close>

theorem read_without_callback_reports_nothing:
  "read quiet_env 1 5000 None idle_client = idle_client \<and>
   scheduled_transactions (read quiet_env 1 5000 None idle_client) = [] \<and>
   trace (read quiet_env 1 5000 None idle_client) = []"
  by (simp add: read_def idle_client_def)

text \<open>
  C4, amended. \<^verbatim>\<open>read\<close> without a callback returns with the client unchanged and
  nothing reported. With a callback it checks, in this order, a negative timeout
  (InvalidArgument), a socket that is not connected (NotConnected) and a full queue
  (NoTransactionAvailable): the first check that fails calls the callback with that
  result and NaN before \<^verbatim>\<open>read\<close> returns, on a client whose queue is unchanged and
  holds no new transaction. When no check fails, and only then, a new transaction with
  the id, the timeout and the callback is appended at the tail of the queue, and no
  callback is called.
\<close>

theorem read_outcomes:
  "read h i tmo None s = s \<and>
   (tmo < 0 \<longrightarrow>
      read h i tmo (Some c) s =
        run h c InvalidArgument NAN (s\<lparr>trace := trace s @ [Call c InvalidArgument NAN]\<rparr>)) \<and>
   (0 \<le> tmo \<and> socket_fd s < 0 \<longrightarrow>
      read h i tmo (Some c) s =
        run h c NotConnected NAN (s\<lparr>trace := trace s @ [Call c NotConnected NAN]\<rparr>)) \<and>
   (0 \<le> tmo \<and> 0 \<le> socket_fd s \<and>
    TF_RCT_POWER_CLIENT_MAX_SCHEDULED_TRANSACTION_COUNT h \<le> length (scheduled_transactions s) \<longrightarrow>
      read h i tmo (Some c) s =
        run h c NoTransactionAvailable NAN
          (s\<lparr>trace := trace s @ [Call c NoTransactionAvailable NAN]\<rparr>)) \<and>
   (0 \<le> tmo \<and> 0 \<le> socket_fd s \<and>
    length (scheduled_transactions s) < TF_RCT_POWER_CLIENT_MAX_SCHEDULED_TRANSACTION_COUNT h \<longrightarrow>
      read h i tmo (Some c) s =
        s\<lparr>scheduled_transactions :=
             scheduled_transactions s @ [\<lparr>id' = i, timeout = tmo, callback = Some c\<rparr>],
           trace := trace s @ [New \<lparr>id' = i, timeout = tmo, callback = Some c\<rparr>]\<rparr>)"
  by (simp add: read_def invoke_def Let_def)

theorem read_outcomes_witness:
  "read quiet_env 1 5000 None idle_client = idle_client \<and>
   read quiet_env 1 (- 1) (Some 7) idle_client =
     idle_client\<lparr>trace := [Call 7 InvalidArgument NAN]\<rparr> \<and>
   read quiet_env 1 5000 (Some 7) (idle_client\<lparr>socket_fd := - 1\<rparr>) =
     idle_client\<lparr>socket_fd := - 1, trace := [Call 7 NotConnected NAN]\<rparr> \<and>
   read quiet_env 1 5000 (Some 7)
       (idle_client\<lparr>scheduled_transactions := replicate 8 \<lparr>id' = 0, timeout = 0, callback = Some 0\<rparr>\<rparr>) =
     idle_client\<lparr>scheduled_transactions := replicate 8 \<lparr>id' = 0, timeout = 0, callback = Some 0\<rparr>,
       trace := [Call 7 NoTransactionAvailable NAN]\<rparr> \<and>
   read quiet_env 1 5000 (Some 7) idle_client =
     idle_client\<lparr>scheduled_transactions := [\<lparr>id' = 1, timeout = 5000, callback = Some 7\<rparr>],
       trace := [New \<lparr>id' = 1, timeout = 5000, callback = Some 7\<rparr>]\<rparr>"
  using read_outcomes [of quiet_env 1 5000 idle_client 7]
    read_outcomes [of quiet_env 1 "- 1" idle_client 7]
    read_outcomes [of quiet_env 1 5000 "idle_client\<lparr>socket_fd := - 1\<rparr>" 7]
    read_outcomes [of quiet_env 1 5000
      "idle_client\<lparr>scheduled_transactions := replicate 8 \<lparr>id' = 0, timeout = 0, callback = Some 0\<rparr>\<rparr>" 7]
  by (simp add: quiet_env_def idle_client_def)


subsection \<open>The outbound tick\<close>

lemma escaped_request_spec: "tick_hook_escaped_request i = escape_spec (request_spec i)"
  by (simp add: tick_hook_escaped_request_spec tick_hook_request_spec)

lemma check_timeout_elapsed:
  "pending_transaction s = Some p \<Longrightarrow> deadline_elapsed (pending_transaction_deadline s) \<Longrightarrow>
   callback p = Some c \<Longrightarrow>
   check_pending_transaction_timeout h deadline_elapsed s =
     run h c Timeout NAN
       (s\<lparr>pending_transaction := None, pending_transaction_deadline := 0,
          trace := trace s @ [Delete (p\<lparr>callback := None\<rparr>), Call c Timeout NAN]\<rparr>)"
  by (simp add: check_pending_transaction_timeout_def finish_pending_transaction_Some)

lemma check_timeout_not_elapsed:
  "pending_transaction s = None \<or> \<not> deadline_elapsed (pending_transaction_deadline s) \<Longrightarrow>
   check_pending_transaction_timeout h deadline_elapsed s = s"
  by (auto simp add: check_pending_transaction_timeout_def)

lemma tick_hook_promotes:
  "pending_transaction (check_pending_transaction_timeout h deadline_elapsed s) = None \<Longrightarrow>
   scheduled_transactions (check_pending_transaction_timeout h deadline_elapsed s) = t # rest \<Longrightarrow>
   send (escape_spec (request_spec (id' t))) \<Longrightarrow>
   tick_hook h deadline_elapsed now_us send errno s =
     (check_pending_transaction_timeout h deadline_elapsed s)
       \<lparr>scheduled_transactions := rest, pending_transaction := Some t,
        pending_transaction_deadline := now_us + timeout t,
        trace := trace (check_pending_transaction_timeout h deadline_elapsed s) @
                 [Send (escape_spec (request_spec (id' t)))]\<rparr>"
  by (simp add: tick_hook_def Let_def calculate_deadline_def escaped_request_spec)

lemma tick_hook_send_fails:
  "pending_transaction (check_pending_transaction_timeout h deadline_elapsed s) = None \<Longrightarrow>
   scheduled_transactions (check_pending_transaction_timeout h deadline_elapsed s) = t # rest \<Longrightarrow>
   \<not> send (escape_spec (request_spec (id' t))) \<Longrightarrow> callback t = Some c \<Longrightarrow>
   tick_hook h deadline_elapsed now_us send errno s =
     do_disconnect h Reason_SocketSendFailed errno
       (run h c SendFailed NAN
          ((check_pending_transaction_timeout h deadline_elapsed s)
             \<lparr>scheduled_transactions := rest, pending_transaction := None,
              pending_transaction_deadline := 0,
              trace := trace (check_pending_transaction_timeout h deadline_elapsed s) @
                       [Send (escape_spec (request_spec (id' t))),
                        Delete (t\<lparr>callback := None\<rparr>), Call c SendFailed NAN]\<rparr>))"
  by (simp add: tick_hook_def Let_def calculate_deadline_def escaped_request_spec
      finish_pending_transaction_Some)

lemma tick_hook_nothing_to_promote:
  "pending_transaction (check_pending_transaction_timeout h deadline_elapsed s) \<noteq> None \<or>
   scheduled_transactions (check_pending_transaction_timeout h deadline_elapsed s) = [] \<Longrightarrow>
   tick_hook h deadline_elapsed now_us send errno s =
     check_pending_transaction_timeout h deadline_elapsed s"
  by (auto simp add: tick_hook_def Let_def split: option.splits list.splits)

lemma awaiting_1_scheduled_2_eq:
  "awaiting_1_scheduled_2 =
     idle_client\<lparr>scheduled_transactions := [\<lparr>id' = 2, timeout = 5000, callback = Some 9\<rparr>],
       pending_transaction := Some \<lparr>id' = 1, timeout = 5000, callback = Some 7\<rparr>,
       pending_transaction_deadline := 6000,
       trace := [New \<lparr>id' = 1, timeout = 5000, callback = Some 7\<rparr>,
                 Send [START, 1, 4, 0, 0, 0, 1, 0xD2, 0x97],
                 New \<lparr>id' = 2, timeout = 5000, callback = Some 9\<rparr>]\<rparr>"
  by code_simp

lemma request_2_on_the_wire: "escape_spec (request_spec 2) = [START, 1, 4, 0, 0, 0, 2, 0xE2, 0xF4]"
  by code_simp

text \<open>
  C5. A tick first checks the deadline of the pending transaction: when there is one and
  its deadline has elapsed, it is finished with Timeout, and otherwise nothing happens.
  Then, in the client \<open>s1\<close> that this check leaves, when nothing is pending and the queue
  is not empty, the head of the queue is taken off and becomes the pending transaction,
  its deadline is the clock of this moment plus its timeout, and its escaped request is
  handed to \<^verbatim>\<open>send\<close>; when \<^verbatim>\<open>send\<close> fails, the transaction is finished with SendFailed
  and \<^verbatim>\<open>disconnect\<close> is called with the reason SocketSendFailed and the error number.
  When something is pending after the check or the queue is empty, the tick does no more.
\<close>

theorem tick_hook_steps:
  fixes h deadline_elapsed s
  defines "s1 \<equiv> check_pending_transaction_timeout h deadline_elapsed s"
  shows
   "(pending_transaction s = Some p \<and> deadline_elapsed (pending_transaction_deadline s) \<and>
     callback p = Some c \<longrightarrow>
       s1 = run h c Timeout NAN
              (s\<lparr>pending_transaction := None, pending_transaction_deadline := 0,
                 trace := trace s @ [Delete (p\<lparr>callback := None\<rparr>), Call c Timeout NAN]\<rparr>)) \<and>
    (pending_transaction s = None \<or> \<not> deadline_elapsed (pending_transaction_deadline s) \<longrightarrow>
       s1 = s) \<and>
    (pending_transaction s1 = None \<and> scheduled_transactions s1 = t # rest \<and>
     send (escape_spec (request_spec (id' t))) \<longrightarrow>
       tick_hook h deadline_elapsed now_us send errno s =
         s1\<lparr>scheduled_transactions := rest, pending_transaction := Some t,
            pending_transaction_deadline := now_us + timeout t,
            trace := trace s1 @ [Send (escape_spec (request_spec (id' t)))]\<rparr>) \<and>
    (pending_transaction s1 = None \<and> scheduled_transactions s1 = t # rest \<and>
     \<not> send (escape_spec (request_spec (id' t))) \<and> callback t = Some c' \<longrightarrow>
       tick_hook h deadline_elapsed now_us send errno s =
         do_disconnect h Reason_SocketSendFailed errno
           (run h c' SendFailed NAN
              (s1\<lparr>scheduled_transactions := rest, pending_transaction := None,
                  pending_transaction_deadline := 0,
                  trace := trace s1 @ [Send (escape_spec (request_spec (id' t))),
                                       Delete (t\<lparr>callback := None\<rparr>), Call c' SendFailed NAN]\<rparr>))) \<and>
    (pending_transaction s1 \<noteq> None \<or> scheduled_transactions s1 = [] \<longrightarrow>
       tick_hook h deadline_elapsed now_us send errno s = s1)"
  unfolding s1_def
  using check_timeout_elapsed [of s p deadline_elapsed c h]
    check_timeout_not_elapsed [of s deadline_elapsed h]
    tick_hook_promotes [of h deadline_elapsed s t rest send now_us errno]
    tick_hook_send_fails [of h deadline_elapsed s t rest send c' now_us errno]
    tick_hook_nothing_to_promote [of h deadline_elapsed s now_us send errno]
  by blast

text \<open>
  Transaction 1 is pending with deadline 6000 and transaction 2 is scheduled with timeout
  5000. A tick at 7000 that finds the deadline elapsed times transaction 1 out and
  promotes transaction 2 with deadline 12000; when \<^verbatim>\<open>send\<close> fails with error number 5,
  transaction 2 fails with SendFailed and \<^verbatim>\<open>disconnect\<close> is called.
\<close>

theorem tick_hook_steps_witness:
  "tick_hook quiet_env (\<lambda>d. True) 7000 (\<lambda>b. True) 0 awaiting_1_scheduled_2 =
     awaiting_1_scheduled_2\<lparr>scheduled_transactions := [],
       pending_transaction := Some \<lparr>id' = 2, timeout = 5000, callback = Some 9\<rparr>,
       pending_transaction_deadline := 12000,
       trace := trace awaiting_1_scheduled_2 @
         [Delete \<lparr>id' = 1, timeout = 5000, callback = None\<rparr>, Call 7 Timeout NAN,
          Send [START, 1, 4, 0, 0, 0, 2, 0xE2, 0xF4]]\<rparr> \<and>
   tick_hook quiet_env (\<lambda>d. True) 7000 (\<lambda>b. False) 5 awaiting_1_scheduled_2 =
     awaiting_1_scheduled_2\<lparr>scheduled_transactions := [],
       pending_transaction := None, pending_transaction_deadline := 0,
       trace := trace awaiting_1_scheduled_2 @
         [Delete \<lparr>id' = 1, timeout = 5000, callback = None\<rparr>, Call 7 Timeout NAN,
          Send [START, 1, 4, 0, 0, 0, 2, 0xE2, 0xF4],
          Delete \<lparr>id' = 2, timeout = 5000, callback = None\<rparr>, Call 9 SendFailed NAN,
          Disconnect Reason_SocketSendFailed 5]\<rparr>"
  using
    tick_hook_steps [where h = quiet_env and deadline_elapsed = "\<lambda>d. True"
      and s = awaiting_1_scheduled_2 and p = "\<lparr>id' = 1, timeout = 5000, callback = Some 7\<rparr>"
      and c = 7 and t = "\<lparr>id' = 2, timeout = 5000, callback = Some 9\<rparr>" and rest = "[]"
      and send = "\<lambda>b. True" and now_us = 7000 and errno = 0 and c' = 9]
    tick_hook_steps [where h = quiet_env and deadline_elapsed = "\<lambda>d. True"
      and s = awaiting_1_scheduled_2 and p = "\<lparr>id' = 1, timeout = 5000, callback = Some 7\<rparr>"
      and c = 7 and t = "\<lparr>id' = 2, timeout = 5000, callback = Some 9\<rparr>" and rest = "[]"
      and send = "\<lambda>b. False" and now_us = 7000 and errno = 5 and c' = 9]
  by (simp add: awaiting_1_scheduled_2_eq request_2_on_the_wire quiet_env_def idle_client_def
      do_disconnect_def)


subsection \<open>Bytes, most significant first\<close>

lemma take_bit_32_unat8: "take_bit 32 (unat (x::uint8_t)) = unat x"
proof (rule take_bit_nat_eq_self)
  have "unat x < 2 ^ 8"
    using unsigned_less [of x] by simp
  then show "unat x < 2 ^ 32"
    by simp
qed

lemma take_bit_16_unat8: "take_bit 16 (unat (x::uint8_t)) = unat x"
proof (rule take_bit_nat_eq_self)
  have "unat x < 2 ^ 8"
    using unsigned_less [of x] by simp
  then show "unat x < 2 ^ 16"
    by simp
qed

lemma unat_push_bit_ucast8:
  fixes a :: uint8_t
  assumes "n \<le> 24"
  shows "unat (push_bit n (ucast a :: uint32_t)) = unat a * 2 ^ n"
proof -
  have "unat a < 2 ^ 8"
    using unsigned_less [of a] by simp
  then have "unat a * 2 ^ n < 2 ^ 8 * 2 ^ n"
    by simp
  also have "(2::nat) ^ 8 * 2 ^ n = 2 ^ (8 + n)"
    by (simp add: power_add)
  also have "\<dots> \<le> 2 ^ 32"
    using assms by (intro power_increasing) simp_all
  finally have lt: "unat a * 2 ^ n < 2 ^ 32" .
  have "unat (push_bit n (ucast a :: uint32_t)) = take_bit 32 (push_bit n (unat a))"
    by (simp add: unsigned_push_bit_eq unsigned_ucast_eq take_bit_32_unat8)
  also have "\<dots> = unat a * 2 ^ n"
    using lt by (simp add: push_bit_eq_mult take_bit_nat_eq_self)
  finally show ?thesis .
qed

lemma or_of_four_bytes_is_sum:
  fixes a b c d :: uint8_t
  shows "(push_bit 24 (ucast a) OR push_bit 16 (ucast b) OR push_bit 8 (ucast c) OR ucast d :: uint32_t) =
         push_bit 24 (ucast a) + (push_bit 16 (ucast b) + (push_bit 8 (ucast c) + ucast d))"
proof -
  have 1: "(push_bit 8 (ucast c) + ucast d :: uint32_t) = push_bit 8 (ucast c) OR ucast d"
    by (rule disjunctive_add) (auto simp add: bit_simps dest: bit_imp_le_length)
  have 2: "(push_bit 16 (ucast b) + (push_bit 8 (ucast c) OR ucast d) :: uint32_t) =
           push_bit 16 (ucast b) OR (push_bit 8 (ucast c) OR ucast d)"
    by (rule disjunctive_add) (auto simp add: bit_simps dest: bit_imp_le_length)
  have 3: "(push_bit 24 (ucast a) + (push_bit 16 (ucast b) OR (push_bit 8 (ucast c) OR ucast d)) :: uint32_t) =
           push_bit 24 (ucast a) OR (push_bit 16 (ucast b) OR (push_bit 8 (ucast c) OR ucast d))"
    by (rule disjunctive_add) (auto simp add: bit_simps dest: bit_imp_le_length)
  show ?thesis
    by (simp only: 1 2 3 or.assoc)
qed

lemma unat_of_four_bytes:
  fixes a b c d :: uint8_t
  shows "unat (push_bit 24 (ucast a) OR push_bit 16 (ucast b) OR push_bit 8 (ucast c) OR ucast d :: uint32_t) =
         big_endian [a, b, c, d]"
proof -
  have a: "unat a < 2 ^ 8" using unsigned_less [of a] by simp
  have b: "unat b < 2 ^ 8" using unsigned_less [of b] by simp
  have c: "unat c < 2 ^ 8" using unsigned_less [of c] by simp
  have d: "unat d < 2 ^ 8" using unsigned_less [of d] by simp
  have ud: "unat (ucast d :: uint32_t) = unat d"
    by (simp add: unsigned_ucast_eq take_bit_32_unat8)
  have s1: "unat (push_bit 8 (ucast c) + ucast d :: uint32_t) = unat c * 2 ^ 8 + unat d"
    using c d by (subst unat_add_lem [THEN iffD1]) (simp_all add: unat_push_bit_ucast8 ud)
  have s2: "unat (push_bit 16 (ucast b) + (push_bit 8 (ucast c) + ucast d) :: uint32_t) =
            unat b * 2 ^ 16 + (unat c * 2 ^ 8 + unat d)"
    using b c d by (subst unat_add_lem [THEN iffD1]) (simp_all add: unat_push_bit_ucast8 s1)
  have s3: "unat (push_bit 24 (ucast a) + (push_bit 16 (ucast b) + (push_bit 8 (ucast c) + ucast d)) :: uint32_t) =
            unat a * 2 ^ 24 + (unat b * 2 ^ 16 + (unat c * 2 ^ 8 + unat d))"
    using a b c d by (subst unat_add_lem [THEN iffD1]) (simp_all add: unat_push_bit_ucast8 s2)
  show ?thesis
    by (simp only: or_of_four_bytes_is_sum s3) (simp add: big_endian_def)
qed

lemma unat_of_two_bytes:
  fixes a b :: uint8_t
  shows "unat (push_bit 8 (ucast a) OR ucast b :: uint16_t) = big_endian [a, b]"
proof -
  have a: "unat a < 2 ^ 8" using unsigned_less [of a] by simp
  have b: "unat b < 2 ^ 8" using unsigned_less [of b] by simp
  have or_add: "(push_bit 8 (ucast a) OR ucast b :: uint16_t) = push_bit 8 (ucast a) + ucast b"
    by (rule disjunctive_add [symmetric]) (auto simp add: bit_simps dest: bit_imp_le_length)
  have ub: "unat (ucast b :: uint16_t) = unat b"
    by (simp add: unsigned_ucast_eq take_bit_16_unat8)
  have lt: "unat a * 2 ^ 8 < 2 ^ 16"
    using a by simp
  have "unat (push_bit 8 (ucast a :: uint16_t)) = take_bit 16 (push_bit 8 (unat a))"
    by (simp add: unsigned_push_bit_eq unsigned_ucast_eq) (simp only: take_bit_16_unat8)
  also have "\<dots> = unat a * 2 ^ 8"
    using lt by (simp only: push_bit_eq_mult take_bit_nat_eq_self)
  finally have ua: "unat (push_bit 8 (ucast a :: uint16_t)) = unat a * 2 ^ 8" .
  have "unat (push_bit 8 (ucast a :: uint16_t)) + unat (ucast b :: uint16_t) < 2 ^ LENGTH(16)"
    using a b by (simp only: ua ub) simp
  then have "unat (push_bit 8 (ucast a) + ucast b :: uint16_t) =
             unat (push_bit 8 (ucast a :: uint16_t)) + unat (ucast b :: uint16_t)"
    by (rule unat_add_lem [THEN iffD1])
  then show ?thesis
    by (simp only: or_add ua ub) (simp add: big_endian_def)
qed

lemma union_value_big_endian:
  "union_value b9 b8 b7 b6 = of_nat (big_endian [b6, b7, b8, b9])"
proof -
  have "union_value b9 b8 b7 b6 = of_nat (unat (union_value b9 b8 b7 b6))"
    by simp
  also have "unat (union_value b9 b8 b7 b6) = big_endian [b6, b7, b8, b9]"
    unfolding union_value_def by (rule unat_of_four_bytes)
  finally show ?thesis .
qed

subsection \<open>Receiving\<close>

lemma receive_hook_byte_keeps:
  "pending_transaction (receive_hook_byte now_us b s) = pending_transaction s \<and>
   pending_transaction_deadline (receive_hook_byte now_us b s) = pending_transaction_deadline s \<and>
   scheduled_transactions (receive_hook_byte now_us b s) = scheduled_transactions s \<and>
   trace (receive_hook_byte now_us b s) = trace s"
  by (simp add: receive_hook_byte_def receive_hook_check_header_def receive_hook_unescape_def
      append_response_def reset_pending_response_def Let_def)

lemma receive_hook_loop_full:
  "receive_hook_loop h now_us budget fin bytes s = (None, rest, s') \<Longrightarrow>
   pending_response_used s' = 12 \<and>
   pending_transaction s' = pending_transaction s \<and>
   pending_transaction_deadline s' = pending_transaction_deadline s \<and>
   scheduled_transactions s' = scheduled_transactions s \<and>
   trace s' = trace s"
proof (induction h now_us budget fin bytes s rule: receive_hook_loop.induct)
  case (1 h now_us budget fin bytes s)
  show ?case
  proof (cases "12 - pending_response_used s > 0")
    case False
    then have "12 - pending_response_used s = 0"
      by (simp add: word_neq_0_conv [symmetric])
    then have "pending_response_used s = 12"
      by simp
    with False "1.prems" show ?thesis
      by (simp add: receive_hook_loop.simps)
  next
    case True
    show ?thesis
    proof (cases "budget = 0")
      case True
      with \<open>12 - pending_response_used s > 0\<close> "1.prems" show ?thesis
        by (simp add: receive_hook_loop.simps)
    next
      case False
      show ?thesis
      proof (cases bytes)
        case Nil
        with False \<open>12 - pending_response_used s > 0\<close> "1.prems" show ?thesis
          by (simp add: receive_hook_loop.simps split: recv_end.splits)
      next
        case (Cons b bs)
        with False \<open>12 - pending_response_used s > 0\<close> "1.prems"
        have "receive_hook_loop h now_us (budget - 1) fin bs (receive_hook_byte now_us b s) =
              (None, rest, s')"
          by (simp add: receive_hook_loop.simps)
        from "1.IH" [OF \<open>12 - pending_response_used s > 0\<close> False Cons this]
        show ?thesis
          by (simp add: receive_hook_byte_keeps)
      qed
    qed
  qed
qed

lemma receive_hook_validate_cases:
  "receive_hook_validate h s =
     (let r = pending_response s; used = pending_response_used s in
      case pending_transaction s of
        None \<Rightarrow> reset_pending_response s
      | Some p \<Rightarrow>
          if unat (id' p) \<noteq> big_endian [r ! 2, r ! 3, r ! 4, r ! 5]
          then reset_pending_response s
          else if unat (crc16ccitt (take (unat (used - 2)) r)) \<noteq>
                  big_endian [r ! unat (used - 2), r ! unat (used - 1)]
          then finish_pending_transaction h ChecksumMismatch NAN (reset_pending_response s)
          else finish_pending_transaction h Success
                 (of_nat (big_endian [r ! 6, r ! 7, r ! 8, r ! 9])) (reset_pending_response s))"
  by (simp add: receive_hook_validate_def Let_def word_unat_eq_iff unat_of_four_bytes
      unat_of_two_bytes union_value_big_endian split: option.splits)

lemma receive_hook_after_loop:
  "receive_hook_loop h now_us budget fin bytes s = (None, rest, s') \<Longrightarrow>
   receive_hook h now_us budget fin bytes s = (True, rest, receive_hook_validate h s')"
  by (simp add: receive_hook_def)


lemma timed_out_1_awaiting_2_eq:
  "timed_out_1_awaiting_2 =
     idle_client\<lparr>pending_transaction := Some \<lparr>id' = 2, timeout = 5000, callback = Some 9\<rparr>,
       pending_transaction_deadline := 12000,
       trace := [New \<lparr>id' = 1, timeout = 5000, callback = Some 7\<rparr>,
                 Send [START, 1, 4, 0, 0, 0, 1, 0xD2, 0x97],
                 New \<lparr>id' = 2, timeout = 5000, callback = Some 9\<rparr>,
                 Delete \<lparr>id' = 1, timeout = 5000, callback = None\<rparr>, Call 7 Timeout NAN,
                 Send [START, 1, 4, 0, 0, 0, 2, 0xE2, 0xF4]]\<rparr>"
  by code_simp

lemma response_1_fills_buffer_stale:
  "receive_hook_loop quiet_env 8000 100 WouldBlock response_1 timed_out_1_awaiting_2 =
     (None, [],
      timed_out_1_awaiting_2\<lparr>wait_for_start := False,
        pending_response := [5, 8, 0, 0, 0, 1, 0x41, 0, 0, 0x8B, 0x98, 0x2C],
        pending_response_used := 12, last_received_byte := 0x2C,
        bootloader_magic_number := 0x8B982C\<rparr>)"
  by code_simp

lemma response_1_fills_buffer:
  "receive_hook_loop quiet_env 2000 100 WouldBlock response_1 awaiting_1 =
     (None, [],
      awaiting_1\<lparr>wait_for_start := False,
        pending_response := [5, 8, 0, 0, 0, 1, 0x41, 0, 0, 0x8B, 0x98, 0x2C],
        pending_response_used := 12, last_received_byte := 0x2C,
        bootloader_magic_number := 0x8B982C\<rparr>)"
  by code_simp

lemma response_1_checksum:
  "unat (crc16ccitt (take 10 [5, 8, 0, 0, 0, 1, 0x41, 0, 0, 0x8B, 0x98, 0x2C])) =
   big_endian [0x98, 0x2C]"
  by code_simp

text \<open>
  C6. When the loop of \<^verbatim>\<open>receive_hook\<close> ends with the buffer full (12 bytes) and either
  nothing is pending or the number that bytes 2 to 5 denote, most significant byte first,
  is not the id of the pending transaction, \<^verbatim>\<open>receive_hook\<close> returns true with the
  decoder searching for a start again and the buffer empty, and nothing else changed:
  the pending transaction, its deadline, the queue and the trace (so no callback was
  called and nothing was deleted) are the ones the call began with.
\<close>

theorem unmatched_frame_is_discarded:
  assumes "receive_hook_loop h now_us budget fin bytes s = (None, rest, s')"
    and "pending_transaction s = None \<or>
         (\<exists>p. pending_transaction s = Some p \<and>
              unat (id' p) \<noteq> big_endian [pending_response s' ! 2, pending_response s' ! 3,
                                           pending_response s' ! 4, pending_response s' ! 5])"
  shows "pending_response_used s' = 12 \<and>
         receive_hook h now_us budget fin bytes s =
           (True, rest, s'\<lparr>wait_for_start := True, pending_response_used := 0\<rparr>) \<and>
         pending_transaction s' = pending_transaction s \<and>
         pending_transaction_deadline s' = pending_transaction_deadline s \<and>
         scheduled_transactions s' = scheduled_transactions s \<and>
         trace s' = trace s"
proof -
  note full = receive_hook_loop_full [OF assms(1)]
  from assms(2) full have "receive_hook_validate h s' = reset_pending_response s'"
    by (auto simp add: receive_hook_validate_cases Let_def)
  with receive_hook_after_loop [OF assms(1)] full show ?thesis
    by (simp add: reset_pending_response_def)
qed

text \<open>
  Transaction 1 has timed out and transaction 2 is pending when the response for id 1
  arrives late: it is dropped and transaction 2 stays pending.
\<close>

theorem unmatched_frame_is_discarded_witness:
  "pending_transaction timed_out_1_awaiting_2 =
     Some \<lparr>id' = 2, timeout = 5000, callback = Some 9\<rparr> \<and>
   receive_hook quiet_env 8000 100 WouldBlock response_1 timed_out_1_awaiting_2 =
     (True, [],
      timed_out_1_awaiting_2\<lparr>wait_for_start := True,
        pending_response := [5, 8, 0, 0, 0, 1, 0x41, 0, 0, 0x8B, 0x98, 0x2C],
        pending_response_used := 0, last_received_byte := 0x2C,
        bootloader_magic_number := 0x8B982C\<rparr>)"
proof -
  have p: "pending_transaction timed_out_1_awaiting_2 =
             Some \<lparr>id' = 2, timeout = 5000, callback = Some 9\<rparr>"
    by (simp add: timed_out_1_awaiting_2_eq)
  have "unat (id' \<lparr>id' = 2, timeout = 5000, callback = Some 9\<rparr>) \<noteq> big_endian [0, 0, 0, 1]"
    by (simp add: big_endian_def)
  with p have
    "pending_transaction timed_out_1_awaiting_2 = None \<or>
     (\<exists>p. pending_transaction timed_out_1_awaiting_2 = Some p \<and>
        unat (id' p) \<noteq>
          big_endian
            [pending_response (timed_out_1_awaiting_2\<lparr>wait_for_start := False,
               pending_response := [5, 8, 0, 0, 0, 1, 0x41, 0, 0, 0x8B, 0x98, 0x2C],
               pending_response_used := 12, last_received_byte := 0x2C,
               bootloader_magic_number := 0x8B982C\<rparr>) ! 2,
             pending_response (timed_out_1_awaiting_2\<lparr>wait_for_start := False,
               pending_response := [5, 8, 0, 0, 0, 1, 0x41, 0, 0, 0x8B, 0x98, 0x2C],
               pending_response_used := 12, last_received_byte := 0x2C,
               bootloader_magic_number := 0x8B982C\<rparr>) ! 3,
             pending_response (timed_out_1_awaiting_2\<lparr>wait_for_start := False,
               pending_response := [5, 8, 0, 0, 0, 1, 0x41, 0, 0, 0x8B, 0x98, 0x2C],
               pending_response_used := 12, last_received_byte := 0x2C,
               bootloader_magic_number := 0x8B982C\<rparr>) ! 4,
             pending_response (timed_out_1_awaiting_2\<lparr>wait_for_start := False,
               pending_response := [5, 8, 0, 0, 0, 1, 0x41, 0, 0, 0x8B, 0x98, 0x2C],
               pending_response_used := 12, last_received_byte := 0x2C,
               bootloader_magic_number := 0x8B982C\<rparr>) ! 5])"
    by simp
  from unmatched_frame_is_discarded [OF response_1_fills_buffer_stale this] p
  show ?thesis by simp
qed

text \<open>
  A checksum mismatch: a full buffer with the id of the pending transaction and a
  checksum over bytes 0 to 9 that is not the number bytes 10 and 11 denote fails the
  pending transaction with ChecksumMismatch, with the decoder searching for a start
  again and the buffer empty.
\<close>

lemma checksum_mismatch_fails_pending:
  assumes "receive_hook_loop h now_us budget fin bytes s = (None, rest, s')"
    and "pending_transaction s = Some p" and "callback p = Some c"
    and "unat (id' p) = big_endian [pending_response s' ! 2, pending_response s' ! 3,
                                     pending_response s' ! 4, pending_response s' ! 5]"
    and "unat (crc16ccitt (take 10 (pending_response s'))) \<noteq>
         big_endian [pending_response s' ! 10, pending_response s' ! 11]"
  shows "receive_hook h now_us budget fin bytes s =
           (True, rest,
            run h c ChecksumMismatch NAN
              (s'\<lparr>wait_for_start := True, pending_response_used := 0,
                  pending_transaction := None, pending_transaction_deadline := 0,
                  trace := trace s @ [Delete (p\<lparr>callback := None\<rparr>),
                                      Call c ChecksumMismatch NAN]\<rparr>))"
proof -
  note full = receive_hook_loop_full [OF assms(1)]
  from assms full have
    "receive_hook_validate h s' =
       finish_pending_transaction h ChecksumMismatch NAN (reset_pending_response s')"
    by (simp add: receive_hook_validate_cases Let_def)
  also have "\<dots> = run h c ChecksumMismatch NAN
              (s'\<lparr>wait_for_start := True, pending_response_used := 0,
                  pending_transaction := None, pending_transaction_deadline := 0,
                  trace := trace s @ [Delete (p\<lparr>callback := None\<rparr>),
                                      Call c ChecksumMismatch NAN]\<rparr>)"
    using assms(2,3) full
    by (simp add: finish_pending_transaction_Some [where t = p and c = c]
        reset_pending_response_def)
  finally show ?thesis
    using receive_hook_after_loop [OF assms(1)] by simp
qed

text \<open>
  C8. When the loop of \<^verbatim>\<open>receive_hook\<close> ends with the buffer full, bytes 2 to 5 denote
  the id of the pending transaction and the checksum of bytes 0 to 9 is the number that
  bytes 10 and 11 denote, the callback of the pending transaction is called with Success
  and the float whose bit pattern is the number that bytes 6 to 9 denote, byte 6 most
  significant; before the call the pending slot is emptied, the deadline cleared and the
  decoder reset.
\<close>

theorem matching_frame_completes_with_value:
  assumes "receive_hook_loop h now_us budget fin bytes s = (None, rest, s')"
    and "pending_transaction s = Some p" and "callback p = Some c"
    and "unat (id' p) = big_endian [pending_response s' ! 2, pending_response s' ! 3,
                                     pending_response s' ! 4, pending_response s' ! 5]"
    and "unat (crc16ccitt (take 10 (pending_response s'))) =
         big_endian [pending_response s' ! 10, pending_response s' ! 11]"
  shows "receive_hook h now_us budget fin bytes s =
           (True, rest,
            run h c Success
              (of_nat (big_endian [pending_response s' ! 6, pending_response s' ! 7,
                                   pending_response s' ! 8, pending_response s' ! 9]))
              (s'\<lparr>wait_for_start := True, pending_response_used := 0,
                  pending_transaction := None, pending_transaction_deadline := 0,
                  trace := trace s @
                    [Delete (p\<lparr>callback := None\<rparr>),
                     Call c Success
                       (of_nat (big_endian [pending_response s' ! 6, pending_response s' ! 7,
                                            pending_response s' ! 8, pending_response s' ! 9]))]\<rparr>))"
proof -
  note full = receive_hook_loop_full [OF assms(1)]
  from assms full have
    "receive_hook_validate h s' =
       finish_pending_transaction h Success
         (of_nat (big_endian [pending_response s' ! 6, pending_response s' ! 7,
                              pending_response s' ! 8, pending_response s' ! 9]))
         (reset_pending_response s')"
    by (simp add: receive_hook_validate_cases Let_def)
  also have "\<dots> = run h c Success
              (of_nat (big_endian [pending_response s' ! 6, pending_response s' ! 7,
                                   pending_response s' ! 8, pending_response s' ! 9]))
              (s'\<lparr>wait_for_start := True, pending_response_used := 0,
                  pending_transaction := None, pending_transaction_deadline := 0,
                  trace := trace s @
                    [Delete (p\<lparr>callback := None\<rparr>),
                     Call c Success
                       (of_nat (big_endian [pending_response s' ! 6, pending_response s' ! 7,
                                            pending_response s' ! 8, pending_response s' ! 9]))]\<rparr>)"
    using assms(2,3) full
    by (simp add: finish_pending_transaction_Some [where t = p and c = c]
        reset_pending_response_def)
  finally show ?thesis
    using receive_hook_after_loop [OF assms(1)] by simp
qed

text \<open>
  The response 05 08 00000001 4100008B 982C for the pending transaction 1 completes it
  with the float of bit pattern 0x4100008B.
\<close>

theorem matching_frame_completes_with_value_witness:
  "pending_transaction awaiting_1 = Some \<lparr>id' = 1, timeout = 5000, callback = Some 7\<rparr> \<and>
   receive_hook quiet_env 2000 100 WouldBlock response_1 awaiting_1 =
     (True, [],
      awaiting_1\<lparr>pending_transaction := None, pending_transaction_deadline := 0,
        wait_for_start := True,
        pending_response := [5, 8, 0, 0, 0, 1, 0x41, 0, 0, 0x8B, 0x98, 0x2C],
        pending_response_used := 0, last_received_byte := 0x2C,
        bootloader_magic_number := 0x8B982C,
        trace := trace awaiting_1 @
          [Delete \<lparr>id' = 1, timeout = 5000, callback = None\<rparr>, Call 7 Success 0x4100008B]\<rparr>)"
proof -
  have p: "pending_transaction awaiting_1 = Some \<lparr>id' = 1, timeout = 5000, callback = Some 7\<rparr>"
    by (simp add: awaiting_1_eq)
  have c: "callback \<lparr>id' = 1, timeout = 5000, callback = Some 7\<rparr> = Some 7"
    by simp
  have i: "unat (id' \<lparr>id' = 1, timeout = 5000, callback = Some 7\<rparr>) =
           big_endian
            [pending_response (awaiting_1\<lparr>wait_for_start := False,
               pending_response := [5, 8, 0, 0, 0, 1, 0x41, 0, 0, 0x8B, 0x98, 0x2C],
               pending_response_used := 12, last_received_byte := 0x2C,
               bootloader_magic_number := 0x8B982C\<rparr>) ! 2,
             pending_response (awaiting_1\<lparr>wait_for_start := False,
               pending_response := [5, 8, 0, 0, 0, 1, 0x41, 0, 0, 0x8B, 0x98, 0x2C],
               pending_response_used := 12, last_received_byte := 0x2C,
               bootloader_magic_number := 0x8B982C\<rparr>) ! 3,
             pending_response (awaiting_1\<lparr>wait_for_start := False,
               pending_response := [5, 8, 0, 0, 0, 1, 0x41, 0, 0, 0x8B, 0x98, 0x2C],
               pending_response_used := 12, last_received_byte := 0x2C,
               bootloader_magic_number := 0x8B982C\<rparr>) ! 4,
             pending_response (awaiting_1\<lparr>wait_for_start := False,
               pending_response := [5, 8, 0, 0, 0, 1, 0x41, 0, 0, 0x8B, 0x98, 0x2C],
               pending_response_used := 12, last_received_byte := 0x2C,
               bootloader_magic_number := 0x8B982C\<rparr>) ! 5]"
    by (simp add: big_endian_def)
  have k: "unat (crc16ccitt (take 10 (pending_response (awaiting_1\<lparr>wait_for_start := False,
               pending_response := [5, 8, 0, 0, 0, 1, 0x41, 0, 0, 0x8B, 0x98, 0x2C],
               pending_response_used := 12, last_received_byte := 0x2C,
               bootloader_magic_number := 0x8B982C\<rparr>)))) =
           big_endian
            [pending_response (awaiting_1\<lparr>wait_for_start := False,
               pending_response := [5, 8, 0, 0, 0, 1, 0x41, 0, 0, 0x8B, 0x98, 0x2C],
               pending_response_used := 12, last_received_byte := 0x2C,
               bootloader_magic_number := 0x8B982C\<rparr>) ! 10,
             pending_response (awaiting_1\<lparr>wait_for_start := False,
               pending_response := [5, 8, 0, 0, 0, 1, 0x41, 0, 0, 0x8B, 0x98, 0x2C],
               pending_response_used := 12, last_received_byte := 0x2C,
               bootloader_magic_number := 0x8B982C\<rparr>) ! 11]"
    using response_1_checksum by simp
  have v: "(of_nat (big_endian [0x41, 0, 0, 0x8B]) :: float) = 0x4100008B"
    by (simp add: big_endian_def)
  from matching_frame_completes_with_value [OF response_1_fills_buffer p c i k] p v
  show ?thesis by (simp add: quiet_env_def awaiting_1_eq idle_client_def)
qed


subsection \<open>Every accepted transaction gets its result once\<close>

lemma accepted_append: "accepted (es @ fs) = accepted es @ accepted fs"
  by (induction es rule: accepted.induct) simp_all

lemma paired_append: "paired es \<Longrightarrow> paired (es @ fs) = paired fs"
  by (induction es rule: paired.induct) simp_all

lemma completed_append: "paired es \<Longrightarrow> completed (es @ fs) = completed es @ completed fs"
  by (induction es rule: paired.induct) simp_all



lemma terminal_is_no_rejection: "terminal r \<Longrightarrow> \<not> rejection r"
  by (cases r) simp_all

text \<open>
  A second call with a terminal result after a completion, or a call with a terminal
  result without a deletion before it, breaks the account.
\<close>

lemma second_call_is_not_paired:
  "paired es \<Longrightarrow> terminal r' \<Longrightarrow> \<not> paired (es @ [Delete t, Call c r v, Call c' r' v'])"
  by (simp add: paired_append terminal_is_no_rejection)

lemma call_without_deletion_is_not_paired:
  "paired es \<Longrightarrow> terminal r \<Longrightarrow> \<not> paired (es @ [Call c r v])"
  by (simp add: paired_append terminal_is_no_rejection)



lemma exactly_once_Send:
  "exactly_once xs s \<Longrightarrow> exactly_once xs (s\<lparr>trace := trace s @ [Send bs]\<rparr>)"
  by (simp add: exactly_once_def outstanding_def accepted_append paired_append completed_append)


lemma exactly_once_New:
  "exactly_once xs s \<Longrightarrow> callback t \<noteq> None \<Longrightarrow>
   exactly_once xs
     (s\<lparr>scheduled_transactions := scheduled_transactions s @ [t], trace := trace s @ [New t]\<rparr>)"
  by (simp add: exactly_once_def outstanding_def accepted_append paired_append completed_append)

lemma exactly_once_finish_pending_state:
  "exactly_once xs s \<Longrightarrow> pending_transaction s = Some t \<Longrightarrow> callback t = Some c \<Longrightarrow>
   terminal r \<Longrightarrow>
   exactly_once xs
     (s\<lparr>pending_transaction := None, pending_transaction_deadline := 0,
        trace := trace s @ [Delete (t\<lparr>callback := None\<rparr>), Call c r v]\<rparr>)"
  by (simp add: exactly_once_def outstanding_def accepted_append paired_append completed_append)

lemma exactly_once_finish_scheduled_state:
  "exactly_once ((t # ts) @ xs) s \<Longrightarrow> callback t = Some c \<Longrightarrow> terminal r \<Longrightarrow>
   exactly_once (ts @ xs)
     (s\<lparr>trace := trace s @ [Delete (t\<lparr>callback := None\<rparr>), Call c r v]\<rparr>)"
  by (simp add: exactly_once_def outstanding_def accepted_append paired_append completed_append)

lemma exactly_once_pending_callback:
  "exactly_once xs s \<Longrightarrow> pending_transaction s = Some t \<Longrightarrow> \<exists>c. callback t = Some c"
  by (auto simp add: exactly_once_def outstanding_def)





lemma exactly_once_detach:
  "exactly_once xs s \<Longrightarrow>
   exactly_once (scheduled_transactions s @ xs) (s\<lparr>scheduled_transactions := []\<rparr>)"
  by (simp add: exactly_once_def outstanding_def)





lemma exactly_once_promote:
  "exactly_once xs s \<Longrightarrow> pending_transaction s = None \<Longrightarrow>
   scheduled_transactions s = t # rest \<Longrightarrow>
   exactly_once xs
     (s\<lparr>pending_transaction := Some t, scheduled_transactions := rest,
        pending_transaction_deadline := d, trace := trace s @ [Send bs]\<rparr>)"
  by (simp add: exactly_once_def outstanding_def accepted_append paired_append completed_append)














lemma subset_add_mset: "A \<subseteq># B \<Longrightarrow> A \<subseteq># add_mset x B"
  by (metis add_mset_add_single mset_subset_eq_add_left subset_mset.order_trans)

lemma still_owedI:
  "exactly_once xs s \<Longrightarrow> mset o2 \<subseteq># mset xs \<Longrightarrow> trace s = trace s0 @ es \<Longrightarrow> paired es \<Longrightarrow>
   outstanding [] s = o1 @ n1 \<Longrightarrow>
   mset (outstanding [] s0) \<subseteq># mset o1 + mset o2 + mset (completed es) \<Longrightarrow>
   still_owed s0 o1 o2 xs s"
  unfolding still_owed_def by blast

lemma progressI: "still_owed s0 o1 o2 xs s \<Longrightarrow> steps_left o1 o2 s \<le> n \<Longrightarrow> progress s0 xs s n"
  unfolding progress_def by blast

lemma progress_mono: "progress s0 xs s m \<Longrightarrow> m \<le> n \<Longrightarrow> progress s0 xs s n"
  unfolding progress_def by (meson le_trans)

lemma progress_exactly_once: "progress s0 xs s n \<Longrightarrow> exactly_once xs s"
  by (auto simp add: progress_def still_owed_def)




lemma hooks_advance_run:
  "hooks_advance h \<Longrightarrow> progress s0 xs s n \<Longrightarrow> progress s0 xs (run h c r v s) n"
  by (simp add: hooks_advance_def)

lemma progress_same:
  assumes "progress s0 xs s n" and "trace s' = trace s"
    and "pending_transaction s' = pending_transaction s"
    and "scheduled_transactions s' = scheduled_transactions s"
  shows "progress s0 xs s' n"
proof -
  from assms(1) obtain o1 o2 where o: "still_owed s0 o1 o2 xs s" "steps_left o1 o2 s \<le> n"
    unfolding progress_def by blast
  from o(1) assms(2-4) have "still_owed s0 o1 o2 xs s'"
    unfolding still_owed_def by (simp add: exactly_once_def outstanding_def)
  moreover from o(2) assms(3) have "steps_left o1 o2 s' \<le> n"
    by (simp add: steps_left_def)
  ultimately show ?thesis
    by (rule progressI)
qed

text \<open>An event that is neither an allocation nor part of a completion.\<close>

lemma progress_event:
  assumes "progress s0 xs s n" and "paired [e]" and "accepted [e] = []"
  shows "progress s0 xs (s\<lparr>trace := trace s @ [e]\<rparr>) n"
proof -
  from assms(1) obtain o1 o2 where o: "still_owed s0 o1 o2 xs s" "steps_left o1 o2 s \<le> n"
    unfolding progress_def by blast
  from o(1) obtain es n1 where
    e: "exactly_once xs s" and o2: "mset o2 \<subseteq># mset xs" and
    t: "trace s = trace s0 @ es" and p: "paired es" and
    o1: "outstanding [] s = o1 @ n1" and
    m: "mset (outstanding [] s0) \<subseteq># mset o1 + mset o2 + mset (completed es)"
    unfolding still_owed_def by blast
  from assms(2) have c: "completed [e] = []"
    by (cases e) simp_all
  from e have p0: "paired (trace s)"
    by (simp add: exactly_once_def)
  have "exactly_once xs (s\<lparr>trace := trace s @ [e]\<rparr>)"
    using e assms(2,3) c p0
    by (simp add: exactly_once_def outstanding_def accepted_append paired_append completed_append)
  then have "still_owed s0 o1 o2 xs (s\<lparr>trace := trace s @ [e]\<rparr>)"
  proof (rule still_owedI [OF _ o2, where es = "es @ [e]" and ?n1.0 = n1])
    show "trace (s\<lparr>trace := trace s @ [e]\<rparr>) = trace s0 @ es @ [e]"
      using t by simp
    show "paired (es @ [e])"
      using p assms(2) by (simp add: paired_append)
    show "outstanding [] (s\<lparr>trace := trace s @ [e]\<rparr>) = o1 @ n1"
      using o1 by (simp add: outstanding_def)
    show "mset (outstanding [] s0) \<subseteq># mset o1 + mset o2 + mset (completed (es @ [e]))"
      using m p c by (simp add: completed_append)
  qed
  moreover from o(2) have "steps_left o1 o2 (s\<lparr>trace := trace s @ [e]\<rparr>) \<le> n"
    by (simp add: steps_left_def)
  ultimately show ?thesis
    by (rule progressI)
qed

lemma progress_Call:
  "progress s0 xs s n \<Longrightarrow> rejection r \<Longrightarrow> progress s0 xs (s\<lparr>trace := trace s @ [Call c r v]\<rparr>) n"
  by (rule progress_event) simp_all

lemma progress_Send:
  "progress s0 xs s n \<Longrightarrow> progress s0 xs (s\<lparr>trace := trace s @ [Send bs]\<rparr>) n"
  by (rule progress_event) simp_all

lemma progress_Disconnect:
  "progress s0 xs s n \<Longrightarrow> progress s0 xs (s\<lparr>trace := trace s @ [Disconnect reason e]\<rparr>) n"
  by (rule progress_event) simp_all

lemma hooks_advance_disconnect:
  "hooks_advance h \<Longrightarrow> progress s0 xs s n \<Longrightarrow> progress s0 xs (do_disconnect h reason e s) n"
  by (simp add: hooks_advance_def do_disconnect_def progress_Disconnect)

lemma progress_New:
  assumes "progress s0 xs s n" and "callback t \<noteq> None"
  shows "progress s0 xs
           (s\<lparr>scheduled_transactions := scheduled_transactions s @ [t],
              trace := trace s @ [New t]\<rparr>) n"
proof -
  let ?s' = "s\<lparr>scheduled_transactions := scheduled_transactions s @ [t], trace := trace s @ [New t]\<rparr>"
  from assms(1) obtain o1 o2 where o: "still_owed s0 o1 o2 xs s" "steps_left o1 o2 s \<le> n"
    unfolding progress_def by blast
  from o(1) obtain es n1 where
    e: "exactly_once xs s" and o2: "mset o2 \<subseteq># mset xs" and
    t: "trace s = trace s0 @ es" and p: "paired es" and
    o1: "outstanding [] s = o1 @ n1" and
    m: "mset (outstanding [] s0) \<subseteq># mset o1 + mset o2 + mset (completed es)"
    unfolding still_owed_def by blast
  have "exactly_once xs ?s'"
    using e assms(2) by (rule exactly_once_New)
  then have "still_owed s0 o1 o2 xs ?s'"
  proof (rule still_owedI [OF _ o2, where es = "es @ [New t]" and ?n1.0 = "n1 @ [t]"])
    show "trace ?s' = trace s0 @ es @ [New t]"
      using t by simp
    show "paired (es @ [New t])"
      using p by (simp add: paired_append)
    show "outstanding [] ?s' = o1 @ n1 @ [t]"
      using o1 by (simp add: outstanding_def)
    show "mset (outstanding [] s0) \<subseteq># mset o1 + mset o2 + mset (completed (es @ [New t]))"
      using m p by (simp add: completed_append)
  qed
  moreover from o(2) have "steps_left o1 o2 ?s' \<le> n"
    by (simp add: steps_left_def)
  ultimately show ?thesis
    by (rule progressI)
qed

text \<open>
  Completing the pending transaction. When a transaction that was outstanding in \<open>s0\<close> is
  still in the client, the pending one is such a transaction, and one step less is left.
\<close>

lemma still_owed_finish_pending_state:
  assumes "still_owed s0 o1 o2 xs s" and "pending_transaction s = Some t"
    and "callback t = Some c" and "terminal r"
  shows "progress s0 xs
           (s\<lparr>pending_transaction := None, pending_transaction_deadline := 0,
              trace := trace s @ [Delete (t\<lparr>callback := None\<rparr>), Call c r v]\<rparr>)
           (steps_left o1 o2 s - (if o1 = [] then 0 else 1))"
proof -
  let ?d = "[Delete (t\<lparr>callback := None\<rparr>), Call c r v]"
  let ?s' = "s\<lparr>pending_transaction := None, pending_transaction_deadline := 0,
                trace := trace s @ ?d\<rparr>"
  from assms(1) obtain es n1 where
    e: "exactly_once xs s" and o2: "mset o2 \<subseteq># mset xs" and
    t: "trace s = trace s0 @ es" and p: "paired es" and
    o1: "outstanding [] s = o1 @ n1" and
    m: "mset (outstanding [] s0) \<subseteq># mset o1 + mset o2 + mset (completed es)"
    unfolding still_owed_def by blast
  have e': "exactly_once xs ?s'"
    using e assms(2-4) by (rule exactly_once_finish_pending_state)
  have t': "trace ?s' = trace s0 @ es @ ?d"
    using t by simp
  have p': "paired (es @ ?d)"
    using p assms(4) by (simp add: paired_append)
  have c': "completed (es @ ?d) = completed es @ [t]"
    using p assms(3) by (simp add: completed_append)
  from o1 assms(2) have o: "t # scheduled_transactions s = o1 @ n1"
    by (simp add: outstanding_def)
  show ?thesis
  proof (cases o1)
    case Nil
    have "still_owed s0 [] o2 xs ?s'"
    proof (rule still_owedI [OF e' o2 t' p', where ?n1.0 = "scheduled_transactions s"])
      show "outstanding [] ?s' = [] @ scheduled_transactions s"
        by (simp add: outstanding_def)
      show "mset (outstanding [] s0) \<subseteq># mset [] + mset o2 + mset (completed (es @ ?d))"
        using m Nil c' by (simp add: subset_add_mset)
    qed
    moreover have "steps_left [] o2 ?s' \<le> steps_left o1 o2 s - (if o1 = [] then 0 else 1)"
      using Nil by (simp add: steps_left_def)
    ultimately show ?thesis
      by (rule progressI)
  next
    case (Cons a o1')
    with o have a: "a = t" and q: "scheduled_transactions s = o1' @ n1"
      by simp_all
    have "still_owed s0 o1' o2 xs ?s'"
    proof (rule still_owedI [OF e' o2 t' p', where ?n1.0 = n1])
      show "outstanding [] ?s' = o1' @ n1"
        using q by (simp add: outstanding_def)
      show "mset (outstanding [] s0) \<subseteq># mset o1' + mset o2 + mset (completed (es @ ?d))"
        using m Cons a c' by (simp add: ac_simps)
    qed
    moreover have "steps_left o1' o2 ?s' \<le> steps_left o1 o2 s - (if o1 = [] then 0 else 1)"
      using Cons assms(2) by (simp add: steps_left_def)
    ultimately show ?thesis
      by (rule progressI)
  qed
qed

lemma progress_finish_pending_state:
  assumes "progress s0 xs s n" and "pending_transaction s = Some t"
    and "callback t = Some c" and "terminal r"
  shows "progress s0 xs
           (s\<lparr>pending_transaction := None, pending_transaction_deadline := 0,
              trace := trace s @ [Delete (t\<lparr>callback := None\<rparr>), Call c r v]\<rparr>) n"
proof -
  from assms(1) obtain o1 o2 where o: "still_owed s0 o1 o2 xs s" "steps_left o1 o2 s \<le> n"
    unfolding progress_def by blast
  show ?thesis
    by (rule progress_mono [OF still_owed_finish_pending_state [OF o(1) assms(2-4)]])
      (use o(2) in simp)
qed

text \<open>Promoting the head of the queue.\<close>

lemma still_owed_promote:
  assumes "still_owed s0 o1 o2 xs s" and "pending_transaction s = None"
    and "scheduled_transactions s = t # rest"
  shows "progress s0 xs
           (s\<lparr>pending_transaction := Some t, scheduled_transactions := rest,
              pending_transaction_deadline := d, trace := trace s @ [Send bs]\<rparr>)
           (steps_left o1 o2 s - (if o1 = [] then 0 else 1))"
proof -
  let ?s' = "s\<lparr>pending_transaction := Some t, scheduled_transactions := rest,
                pending_transaction_deadline := d, trace := trace s @ [Send bs]\<rparr>"
  from assms(1) obtain es n1 where
    e: "exactly_once xs s" and o2: "mset o2 \<subseteq># mset xs" and
    t: "trace s = trace s0 @ es" and p: "paired es" and
    o1: "outstanding [] s = o1 @ n1" and
    m: "mset (outstanding [] s0) \<subseteq># mset o1 + mset o2 + mset (completed es)"
    unfolding still_owed_def by blast
  have "exactly_once xs ?s'"
    using e assms(2,3) by (rule exactly_once_promote)
  then have "still_owed s0 o1 o2 xs ?s'"
  proof (rule still_owedI [OF _ o2, where es = "es @ [Send bs]" and ?n1.0 = n1])
    show "trace ?s' = trace s0 @ es @ [Send bs]"
      using t by simp
    show "paired (es @ [Send bs])"
      using p by (simp add: paired_append)
    show "outstanding [] ?s' = o1 @ n1"
      using o1 assms(2,3) by (simp add: outstanding_def)
    show "mset (outstanding [] s0) \<subseteq># mset o1 + mset o2 + mset (completed (es @ [Send bs]))"
      using m p by (simp add: completed_append)
  qed
  moreover have "steps_left o1 o2 ?s' \<le> steps_left o1 o2 s - (if o1 = [] then 0 else 1)"
    using assms(2) by (simp add: steps_left_def)
  ultimately show ?thesis
    by (rule progressI)
qed

text \<open>Completing the head of the detached list.\<close>

lemma progress_finish_scheduled_state:
  assumes "progress s0 (t # xs) s n" and "callback t = Some c" and "terminal r"
  shows "progress s0 xs
           (s\<lparr>trace := trace s @ [Delete (t\<lparr>callback := None\<rparr>), Call c r v]\<rparr>) n"
proof -
  let ?d = "[Delete (t\<lparr>callback := None\<rparr>), Call c r v]"
  let ?s' = "s\<lparr>trace := trace s @ ?d\<rparr>"
  from assms(1) obtain o1 o2 where o: "still_owed s0 o1 o2 (t # xs) s" "steps_left o1 o2 s \<le> n"
    unfolding progress_def by blast
  from o(1) obtain es n1 where
    e: "exactly_once (t # xs) s" and o2: "mset o2 \<subseteq># mset (t # xs)" and
    t: "trace s = trace s0 @ es" and p: "paired es" and
    o1: "outstanding [] s = o1 @ n1" and
    m: "mset (outstanding [] s0) \<subseteq># mset o1 + mset o2 + mset (completed es)"
    unfolding still_owed_def by blast
  have e': "exactly_once xs ?s'"
    using exactly_once_finish_scheduled_state [of t "[]" xs s c r v] e assms(2,3) by simp
  have t': "trace ?s' = trace s0 @ es @ ?d"
    using t by simp
  have p': "paired (es @ ?d)"
    using p assms(3) by (simp add: paired_append)
  have c': "completed (es @ ?d) = completed es @ [t]"
    using p assms(2) by (simp add: completed_append)
  have o1': "outstanding [] ?s' = o1 @ n1"
    using o1 by (simp add: outstanding_def)
  let ?o2' = "remove1 t o2"
  have o2': "mset ?o2' \<subseteq># mset xs"
    using o2 by (simp add: subset_eq_diff_conv)
  have "mset o2 \<subseteq># add_mset t (mset ?o2')"
    by (cases "t \<in> set o2") (simp_all add: subset_add_mset)
  with m have "mset (outstanding [] s0) \<subseteq># mset o1 + add_mset t (mset ?o2') + mset (completed es)"
    by (meson subset_mset.add_left_mono subset_mset.add_right_mono subset_mset.order_trans)
  then have m': "mset (outstanding [] s0) \<subseteq># mset o1 + mset ?o2' + mset (completed (es @ ?d))"
    using c' by (simp add: ac_simps)
  have "still_owed s0 o1 ?o2' xs ?s'"
    by (rule still_owedI [OF e' o2' t' p' o1' m'])
  moreover have "length ?o2' \<le> length o2"
    by (simp add: length_remove1)
  with o(2) have "steps_left o1 ?o2' ?s' \<le> n"
    by (simp add: steps_left_def)
  ultimately show ?thesis
    by (rule progressI)
qed

text \<open>Detaching the queue.\<close>

lemma progress_detach:
  assumes "progress s0 xs s n"
  shows "progress s0 (scheduled_transactions s @ xs) (s\<lparr>scheduled_transactions := []\<rparr>) n"
proof -
  let ?s' = "s\<lparr>scheduled_transactions := []\<rparr>"
  from assms(1) obtain o1 o2 where o: "still_owed s0 o1 o2 xs s" "steps_left o1 o2 s \<le> n"
    unfolding progress_def by blast
  from o(1) obtain es n1 where
    e: "exactly_once xs s" and o2: "mset o2 \<subseteq># mset xs" and
    t: "trace s = trace s0 @ es" and p: "paired es" and
    o1: "outstanding [] s = o1 @ n1" and
    m: "mset (outstanding [] s0) \<subseteq># mset o1 + mset o2 + mset (completed es)"
    unfolding still_owed_def by blast
  have e': "exactly_once (scheduled_transactions s @ xs) ?s'"
    using e by (rule exactly_once_detach)
  have t': "trace ?s' = trace s0 @ es"
    using t by simp
  show ?thesis
  proof (cases "pending_transaction s")
    case None
    with o1 have q: "scheduled_transactions s = o1 @ n1"
      by (simp add: outstanding_def)
    have "still_owed s0 [] (o1 @ o2) (scheduled_transactions s @ xs) ?s'"
    proof (rule still_owedI [OF e' _ t' p, where ?n1.0 = "[]"])
      show "mset (o1 @ o2) \<subseteq># mset (scheduled_transactions s @ xs)"
        using o2 q by (simp add: subset_mset.add_increasing)
      show "outstanding [] ?s' = [] @ []"
        using None by (simp add: outstanding_def)
      show "mset (outstanding [] s0) \<subseteq># mset [] + mset (o1 @ o2) + mset (completed es)"
        using m by simp
    qed
    moreover have "steps_left [] (o1 @ o2) ?s' \<le> n"
      using o(2) None by (simp add: steps_left_def)
    ultimately show ?thesis
      by (rule progressI)
  next
    case (Some a)
    with o1 have q: "a # scheduled_transactions s = o1 @ n1"
      by (simp add: outstanding_def)
    show ?thesis
    proof (cases o1)
      case Nil
      have "still_owed s0 [] o2 (scheduled_transactions s @ xs) ?s'"
      proof (rule still_owedI [OF e' _ t' p, where ?n1.0 = "[a]"])
        show "mset o2 \<subseteq># mset (scheduled_transactions s @ xs)"
          using o2 by (simp add: subset_mset.add_increasing)
        show "outstanding [] ?s' = [] @ [a]"
          using Some by (simp add: outstanding_def)
        show "mset (outstanding [] s0) \<subseteq># mset [] + mset o2 + mset (completed es)"
          using m Nil by simp
      qed
      moreover have "steps_left [] o2 ?s' \<le> n"
        using o(2) Nil by (simp add: steps_left_def)
      ultimately show ?thesis
        by (rule progressI)
    next
      case (Cons b o1')
      with q have b: "b = a" and q': "scheduled_transactions s = o1' @ n1"
        by simp_all
      have "still_owed s0 [a] (o1' @ o2) (scheduled_transactions s @ xs) ?s'"
      proof (rule still_owedI [OF e' _ t' p, where ?n1.0 = "[]"])
        show "mset (o1' @ o2) \<subseteq># mset (scheduled_transactions s @ xs)"
          using o2 q' by (simp add: subset_mset.add_increasing)
        show "outstanding [] ?s' = [a] @ []"
          using Some by (simp add: outstanding_def)
        show "mset (outstanding [] s0) \<subseteq># mset [a] + mset (o1' @ o2) + mset (completed es)"
          using m Cons b by simp
      qed
      moreover have "steps_left [a] (o1' @ o2) ?s' \<le> n"
        using o(2) Cons Some by (simp add: steps_left_def)
      ultimately show ?thesis
        by (rule progressI)
    qed
  qed
qed

lemma progress_pending_callback:
  "progress s0 xs s n \<Longrightarrow> pending_transaction s = Some t \<Longrightarrow> \<exists>c. callback t = Some c"
  using progress_exactly_once exactly_once_pending_callback by blast

lemma progress_finish_pending_transaction:
  assumes "hooks_advance h" and "progress s0 xs s n" and "terminal r"
  shows "progress s0 xs (finish_pending_transaction h r v s) n"
proof (cases "pending_transaction s")
  case None
  with assms show ?thesis
    by (simp add: finish_pending_transaction_None)
next
  case (Some t)
  with assms(2) obtain c where c: "callback t = Some c"
    using progress_pending_callback by blast
  from assms Some c show ?thesis
    by (simp add: finish_pending_transaction_Some hooks_advance_run progress_finish_pending_state)
qed

lemma progress_finish_scheduled:
  "hooks_advance h \<Longrightarrow> terminal r \<Longrightarrow> progress s0 (ts @ xs) s n \<Longrightarrow>
   progress s0 xs (finish_scheduled h r ts s) n"
proof (induction ts arbitrary: s)
  case Nil
  then show ?case by simp
next
  case (Cons t ts)
  from Cons.prems(3) obtain c where c: "callback t = Some c"
    using progress_exactly_once [OF Cons.prems(3)] by (auto simp add: exactly_once_def outstanding_def)
  have "progress s0 (ts @ xs)
          (run h c r NAN (s\<lparr>trace := trace s @ [Delete (t\<lparr>callback := None\<rparr>), Call c r NAN]\<rparr>)) n"
    using Cons.prems c by (intro hooks_advance_run progress_finish_scheduled_state) simp_all
  then show ?case
    using Cons.IH [OF Cons.prems(1,2)] c by (simp add: invoke_def)
qed

lemma progress_finish_all_transactions:
  assumes "hooks_advance h" and "progress s0 xs s n" and "terminal r"
  shows "progress s0 xs (finish_all_transactions h r s) n"
  unfolding finish_all_transactions_def Let_def
  by (intro progress_finish_scheduled progress_detach progress_finish_pending_transaction assms)

lemma progress_close_hook:
  assumes "hooks_advance h" and "progress s0 xs s n"
  shows "progress s0 xs (close_hook h s) n"
proof -
  have "progress s0 xs
          (reset_pending_response
             (s\<lparr>last_received_byte := 0, bootloader_magic_number := 0,
                bootloader_last_detected := 0\<rparr>)) n"
    by (rule progress_same [OF assms(2)]) (simp_all add: reset_pending_response_def)
  then show ?thesis
    unfolding close_hook_def by (intro progress_finish_all_transactions assms(1)) simp_all
qed

lemma progress_read:
  assumes "hooks_advance h" and "progress s0 xs s n"
  shows "progress s0 xs (read h i tmo cb s) n"
proof (cases cb)
  case None
  with assms show ?thesis by (simp add: read_def)
next
  case (Some c)
  have new: "progress s0 xs
     (s\<lparr>scheduled_transactions :=
          scheduled_transactions s @ [\<lparr>id' = i, timeout = tmo, callback = Some c\<rparr>],
        trace := trace s @ [New \<lparr>id' = i, timeout = tmo, callback = Some c\<rparr>]\<rparr>) n"
    using assms(2) by (intro progress_New) simp_all
  from assms Some new show ?thesis
    by (simp add: read_def invoke_def Let_def hooks_advance_run progress_Call)
qed

lemma progress_check_timeout:
  "hooks_advance h \<Longrightarrow> progress s0 xs s n \<Longrightarrow>
   progress s0 xs (check_pending_transaction_timeout h deadline_elapsed s) n"
  by (simp add: check_pending_transaction_timeout_def progress_finish_pending_transaction)

text \<open>What \<^verbatim>\<open>tick_hook\<close> does after the timeout check.\<close>

lemma tick_hook_after_check:
  "tick_hook h deadline_elapsed now_us send errno s =
     tick_hook h (\<lambda>d. False) now_us send errno
       (check_pending_transaction_timeout h deadline_elapsed s)"
  by (simp add: tick_hook_def check_pending_transaction_timeout_def)

lemma progress_send_failed:
  assumes "hooks_advance h" and "progress s0 xs s n"
  shows "progress s0 xs
           (do_disconnect h Reason_SocketSendFailed errno
              (finish_pending_transaction h SendFailed NAN s)) n"
  using assms by (intro hooks_advance_disconnect progress_finish_pending_transaction) simp_all

lemma still_owed_promotion:
  assumes "hooks_advance h" and "still_owed s0 o1 o2 xs s"
  shows "progress s0 xs (tick_hook h (\<lambda>d. False) now_us send errno s)
           (steps_left o1 o2 s -
              (if o1 \<noteq> [] \<and> pending_transaction s = None then 1 else 0))"
proof (cases "pending_transaction s")
  case (Some p)
  with assms(2) show ?thesis
    by (auto simp add: tick_hook_def check_pending_transaction_timeout_def intro: progressI)
next
  case None
  show ?thesis
  proof (cases "scheduled_transactions s")
    case Nil
    with None assms(2) have "o1 = []"
      by (auto simp add: still_owed_def outstanding_def)
    with None Nil assms(2) show ?thesis
      by (auto simp add: tick_hook_def check_pending_transaction_timeout_def intro: progressI)
  next
    case (Cons t rest)
    let ?s3 = "s\<lparr>pending_transaction := Some t, scheduled_transactions := rest,
                  pending_transaction_deadline := calculate_deadline now_us (timeout t),
                  trace := trace s @ [Send (tick_hook_escaped_request (id' t))]\<rparr>"
    have "progress s0 xs ?s3 (steps_left o1 o2 s - (if o1 = [] then 0 else 1))"
      using assms(2) None Cons by (rule still_owed_promote)
    with None have s3: "progress s0 xs ?s3
        (steps_left o1 o2 s - (if o1 \<noteq> [] \<and> pending_transaction s = None then 1 else 0))"
      by (cases "o1 = []") simp_all
    from progress_send_failed [OF assms(1) s3] s3 None Cons show ?thesis
      by (simp add: tick_hook_def Let_def check_pending_transaction_timeout_def)
  qed
qed

lemma progress_tick_hook:
  assumes "hooks_advance h" and "progress s0 xs s n"
  shows "progress s0 xs (tick_hook h deadline_elapsed now_us send errno s) n"
proof -
  from progress_check_timeout [OF assms, of deadline_elapsed]
  obtain o1 o2 where
    o: "still_owed s0 o1 o2 xs (check_pending_transaction_timeout h deadline_elapsed s)"
       "steps_left o1 o2 (check_pending_transaction_timeout h deadline_elapsed s) \<le> n"
    unfolding progress_def by blast
  show ?thesis
    unfolding tick_hook_after_check [of h deadline_elapsed]
    by (rule progress_mono [OF still_owed_promotion [OF assms(1) o(1)]]) (use o(2) in simp)
qed


lemma progress_receive_hook_loop:
  "hooks_advance h \<Longrightarrow> progress s0 xs s n \<Longrightarrow>
   progress s0 xs (snd (snd (receive_hook_loop h now_us budget fin bytes s))) n"
proof (induction h now_us budget fin bytes s rule: receive_hook_loop.induct)
  case (1 h now_us budget fin bytes s)
  show ?case
  proof (cases "12 - pending_response_used s > 0 \<and> budget \<noteq> 0")
    case False
    with "1.prems" show ?thesis
      by (auto simp add: receive_hook_loop.simps)
  next
    case True
    show ?thesis
    proof (cases bytes)
      case Nil
      with True "1.prems" show ?thesis
        by (simp add: receive_hook_loop.simps hooks_advance_disconnect split: recv_end.splits)
    next
      case (Cons b bs)
      have "progress s0 xs (receive_hook_byte now_us b s) n"
        by (rule progress_same [OF "1.prems"(2)]) (simp_all add: receive_hook_byte_keeps)
      with "1.IH" [of b bs] True Cons "1.prems"(1) show ?thesis
        by (simp add: receive_hook_loop.simps)
    qed
  qed
qed

lemma progress_reset_pending_response:
  "progress s0 xs s n \<Longrightarrow> progress s0 xs (reset_pending_response s) n"
  by (erule progress_same) (simp_all add: reset_pending_response_def)

lemma progress_receive_hook_validate:
  "hooks_advance h \<Longrightarrow> progress s0 xs s n \<Longrightarrow> progress s0 xs (receive_hook_validate h s) n"
  by (simp add: receive_hook_validate_def Let_def progress_reset_pending_response
      progress_finish_pending_transaction split: option.splits)

lemma progress_receive_hook:
  assumes "hooks_advance h" and "progress s0 xs s n"
  shows "progress s0 xs (snd (snd (receive_hook h now_us budget fin bytes s))) n"
proof -
  obtain r rest s' where l: "receive_hook_loop h now_us budget fin bytes s = (r, rest, s')"
    by (cases "receive_hook_loop h now_us budget fin bytes s") auto
  from progress_receive_hook_loop [OF assms, of now_us budget fin bytes] l
  have "progress s0 xs s' n"
    by simp
  with assms(1) l show ?thesis
    by (cases r) (simp_all add: receive_hook_def progress_receive_hook_validate)
qed

lemma progress_enter:
  "hooks_advance h \<Longrightarrow> progress s0 xs s n \<Longrightarrow> progress s0 xs (enter h e s) n"
  by (cases e)
    (simp_all add: progress_read progress_tick_hook progress_receive_hook progress_close_hook)

lemma progress_enters:
  "hooks_advance h \<Longrightarrow> progress s0 xs s n \<Longrightarrow> progress s0 xs (enter_all h es s) n"
  unfolding enter_all_def
  by (induction es arbitrary: s) (simp_all add: progress_enter)

text \<open>Hooks that call the entry points do not set the client back.\<close>

lemma hooks_that_enter_advance:
  assumes "hooks_advance h"
  shows "hooks_advance
           \<lparr>run = (\<lambda>c r v. enter_all h (f c r v)),
            disconnect = (\<lambda>reason e. enter_all h (g reason e)),
            TF_RCT_POWER_CLIENT_MAX_SCHEDULED_TRANSACTION_COUNT = m\<rparr>"
  using progress_enters [OF assms] by (simp add: hooks_advance_def)




lemma hooks_advance_quiet_env: "hooks_advance quiet_env"
  by (simp add: hooks_advance_def quiet_env_def)

lemma hooks_advance_ticking_env: "hooks_advance ticking_env"
  using progress_tick_hook [OF hooks_advance_quiet_env]
  by (simp add: hooks_advance_def ticking_env_def)








end
